theory Spec2Isabelle
  imports Complex_Main "HOL-Library.AList"
begin

section \<open>Automix solver: a model of \<open>automix_solve.py\<close>\<close>

text \<open>
  Conventions of the model.
  \<^item> Python \<open>str\<close> is \<open>string\<close>; the text is taken to be ASCII, so \<open>\w\<close>, \<open>\s\<close>,
    \<open>str.strip\<close> and \<open>str.lower\<close> are the ASCII ones.
  \<^item> Python \<open>float\<close> is \<open>real\<close>: a number is a finite double, a literal denotes its
    exact decimal value and arithmetic is exact (rounding, infinities and NaN are not
    modelled). The one operation of the program that leaves the range of the doubles on
    numbers of moderate size is the power in \<open>db_to_linear\<close>: its \<open>OverflowError\<close> and
    its underflow to \<open>0.0\<close> are modelled.
  \<^item> A Python \<open>dict\<close> is an association list with distinct keys in insertion order;
    \<open>d[k] = v\<close> is \<open>AList.update k v d\<close> (an existing key keeps its place) and
    a lookup is \<open>map_of d k\<close>.
  \<^item> A raised exception, and the \<open>(None, message)\<close> return of \<open>parse_spec_file\<close>,
    are values of type \<open>failure\<close>; a function that can fail returns \<open>failure + 'a\<close>.
  \<^item> A \<open>while i < len(lines)\<close> loop is a recursion over the lines not yet consumed, that is
    over \<open>lines[i:]\<close>; where the source returns the index \<open>i\<close> the model returns that
    remaining suffix.
\<close>

subsection \<open>Characters and strings\<close>

definition is_space :: "char \<Rightarrow> bool" where
  "is_space c = (c \<in> set [CHR '' '', CHR 0x09, CHR 0x0A, CHR 0x0B, CHR 0x0C, CHR 0x0D,
                            CHR 0x1C, CHR 0x1D, CHR 0x1E, CHR 0x1F])"

definition is_digit :: "char \<Rightarrow> bool" where
  "is_digit c = (c \<in> set ''0123456789'')"

text \<open>The character class \<open>[0-9.]\<close>.\<close>

definition is_num :: "char \<Rightarrow> bool" where
  "is_num c = (c \<in> set ''0123456789.'')"

text \<open>The character class \<open>\w\<close>.\<close>

definition is_word :: "char \<Rightarrow> bool" where
  "is_word c = (c \<in> set ''abcdefghijklmnopqrstuvwxyzABCDEFGHIJKLMNOPQRSTUVWXYZ0123456789_'')"

definition lstrip :: "string \<Rightarrow> string" where
  "lstrip s = dropWhile is_space s"

definition strip :: "string \<Rightarrow> string" where
  "strip s = rev (dropWhile is_space (rev (dropWhile is_space s)))"

definition startswith :: "string \<Rightarrow> string \<Rightarrow> bool" where
  "startswith s p = (take (length p) s = p)"

definition lower_char :: "char \<Rightarrow> char" where
  "lower_char c =
     (case map_of (zip ''ABCDEFGHIJKLMNOPQRSTUVWXYZ'' ''abcdefghijklmnopqrstuvwxyz'') c of
        Some d \<Rightarrow> d
      | None \<Rightarrow> c)"

definition lower :: "string \<Rightarrow> string" where
  "lower s = map lower_char s"

text \<open>\<open>s.replace(" ", "_")\<close>\<close>

definition replace_space :: "string \<Rightarrow> string" where
  "replace_space s = map (\<lambda>c. if c = CHR '' '' then CHR ''_'' else c) s"

text \<open>\<open>s.split(",")\<close>: the pieces between the commas, at least one piece.\<close>

fun split_comma :: "string \<Rightarrow> string list" where
  "split_comma [] = [[]]"
| "split_comma (c # cs) =
     (if c = CHR '','' then [] # split_comma cs
      else (case split_comma cs of
              [] \<Rightarrow> [[c]]
            | p # ps \<Rightarrow> (c # p) # ps))"

text \<open>\<open>"\n".join(xs)\<close>\<close>

fun join_lines :: "string list \<Rightarrow> string" where
  "join_lines [] = []"
| "join_lines [x] = x"
| "join_lines (x # y # ys) = x @ [CHR 0x0A] @ join_lines (y # ys)"

subsection \<open>Failures\<close>

datatype failure =
    ParseError string  \<comment> \<open>\<open>parse_spec_file\<close> returned \<open>(None, message)\<close>\<close>
  | ValueError         \<comment> \<open>raised by \<open>float(...)\<close>\<close>
  | KeyError           \<comment> \<open>raised by a dictionary lookup \<open>d[k]\<close>\<close>
  | IndexError         \<comment> \<open>raised by an array store out of range\<close>
  | OverflowError      \<comment> \<open>raised by \<open>10 ** x\<close> when the result is too large for a double\<close>

subsection \<open>\<open>float(...)\<close> on the tokens the regular expressions capture\<close>

definition digit_val :: "char \<Rightarrow> nat" where
  "digit_val c =
     (case map_of (zip ''0123456789'' [0, 1, 2, 3, 4, 5, 6, 7, 8, 9]) c of
        Some d \<Rightarrow> d
      | None \<Rightarrow> 0)"

definition digits_val :: "string \<Rightarrow> nat" where
  "digits_val ds = foldl (\<lambda>a c. 10 * a + digit_val c) 0 ds"

text \<open>
  \<open>float(s)\<close> for a token \<open>s\<close> matching \<open>[0-9.]+\<close>: digits with at most one point and at
  least one digit (\<open>"1"\<close>, \<open>"1."\<close>, \<open>".5"\<close>, \<open>"1.5"\<close>); anything else (\<open>"."\<close>, \<open>"1.2.3"\<close>)
  raises \<open>ValueError\<close>.
\<close>

definition float_unsigned :: "string \<Rightarrow> failure + real" where
  "float_unsigned s =
     (let ip = takeWhile is_digit s; r = dropWhile is_digit s in
      case r of
        [] \<Rightarrow> if ip = [] then Inl ValueError else Inr (real (digits_val ip))
      | c # fp \<Rightarrow>
          if c = CHR ''.'' \<and> dropWhile is_digit fp = [] \<and> 0 < length ip + length fp
          then Inr (real (digits_val ip) + real (digits_val fp) / 10 ^ length fp)
          else Inl ValueError)"

text \<open>\<open>float(s)\<close> for a token matching \<open>-?[0-9.]+\<close>.\<close>

definition float_signed :: "string \<Rightarrow> failure + real" where
  "float_signed s =
     (case s of
        [] \<Rightarrow> Inl ValueError
      | c # t \<Rightarrow>
          if c = CHR ''-''
          then (case float_unsigned t of Inl e \<Rightarrow> Inl e | Inr v \<Rightarrow> Inr (- v))
          else float_unsigned s)"

subsection \<open>Decibels\<close>

text \<open>
  The doubles end at \<open>(2 - 2^-52) * 2^1023\<close>: a real from \<open>2^1024 - 2^970\<close> on rounds to
  infinity, and a real up to \<open>2^-1075\<close> rounds to \<open>0.0\<close>. The normal doubles, which carry
  53 bits, begin at \<open>2^-1022\<close>.
\<close>

definition overflow_bound :: real where
  "overflow_bound = 2 ^ 1024 - 2 ^ 970"

definition underflow_bound :: real where
  "underflow_bound = 1 / 2 ^ 1075"

text \<open>
  \<open>10 ** (db / 20)\<close>: Python raises \<open>OverflowError\<close> when the power is too large for a
  double and returns \<open>0.0\<close> when it is too small. In between the model takes the exact
  power (its rounding to a double is not modelled).
\<close>

definition db_to_linear :: "real \<Rightarrow> failure + real" where
  "db_to_linear db =
     (if overflow_bound \<le> 10 powr (db / 20) then Inl OverflowError
      else if 10 powr (db / 20) \<le> underflow_bound then Inr 0
      else Inr (10 powr (db / 20)))"

definition linear_to_db :: "real \<Rightarrow> real" where
  "linear_to_db lin = (if lin \<le> 0 then - 150 else 20 * log 10 lin)"

subsection \<open>The regular expressions\<close>

text \<open>
  Each \<open>re.match\<close> of the source is a function from the subject string to the captured
  groups. The character classes that follow one another in these patterns are disjoint
  (\<open>\w\<close> and \<open>:\<close>, \<open>[0-9.]\<close> and \<open>\s\<close>, \<open>\s\<close> and \<open>\S\<close>), so a greedy repetition
  takes the longest run and backtracking finds nothing else; the one exception is
  \<open>(\S+):\<close>, treated below. \<open>\s*$\<close> holds exactly when only whitespace is left.
\<close>

definition not_space :: "char \<Rightarrow> bool" where
  "not_space c = (\<not> is_space c)"

text \<open>\<open>\s*([0-9.]+)\s*$\<close>, the tail of three of the patterns.\<close>

definition num_tail :: "string \<Rightarrow> string option" where
  "num_tail r =
     (let r1 = dropWhile is_space r; n = takeWhile is_num r1; r2 = dropWhile is_num r1 in
      if n \<noteq> [] \<and> dropWhile is_space r2 = [] then Some n else None)"

text \<open>\<open>re.match(r"(\w+):\s*([0-9.]+)\s*$", s)\<close>\<close>

definition match_instrument :: "string \<Rightarrow> (string \<times> string) option" where
  "match_instrument s =
     (let w = takeWhile is_word s in
      if w = [] then None
      else (case dropWhile is_word s of
              [] \<Rightarrow> None
            | c # r \<Rightarrow>
                if c = CHR '':'' then (case num_tail r of None \<Rightarrow> None | Some n \<Rightarrow> Some (w, n))
                else None))"

text \<open>\<open>re.match(r"(direct|early):\s*([0-9.]+)\s*$", s)\<close>\<close>

definition match_component :: "string \<Rightarrow> (string \<times> string) option" where
  "match_component s =
     (if startswith s ''direct:''
      then (case num_tail (drop 7 s) of None \<Rightarrow> None | Some n \<Rightarrow> Some (''direct'', n))
      else if startswith s ''early:''
      then (case num_tail (drop 6 s) of None \<Rightarrow> None | Some n \<Rightarrow> Some (''early'', n))
      else None)"

text \<open>\<open>re.match(r"hall\s+gain:\s*(-?[0-9.]+)\s*$", s)\<close>\<close>

definition match_hall_gain :: "string \<Rightarrow> string option" where
  "match_hall_gain s =
     (if startswith s ''hall'' \<and> takeWhile is_space (drop 4 s) \<noteq> []
         \<and> startswith (dropWhile is_space (drop 4 s)) ''gain:''
      then (case dropWhile is_space (drop 5 (dropWhile is_space (drop 4 s))) of
              [] \<Rightarrow> None
            | c # r \<Rightarrow>
                if c = CHR ''-''
                then (if takeWhile is_num r \<noteq> [] \<and> dropWhile is_space (dropWhile is_num r) = []
                      then Some (c # takeWhile is_num r) else None)
                else num_tail (c # r))
      else None)"

text \<open>\<open>re.match(r"([0-9.]+)\s+(\S+)", part)\<close>: a match of a prefix of \<open>part\<close>.\<close>

definition match_part :: "string \<Rightarrow> (string \<times> string) option" where
  "match_part part =
     (let n = takeWhile is_num part; r = dropWhile is_num part;
          x = takeWhile not_space (dropWhile is_space r) in
      if n \<noteq> [] \<and> takeWhile is_space r \<noteq> [] \<and> x \<noteq> [] then Some (n, x) else None)"

text \<open>
  \<open>re.match(r"signal\s+(\S+):\s*$", s)\<close>: the run of non-blank characters after
  \<open>signal\<close> and the blanks has to end with the colon and to end the string, blanks apart.
\<close>

definition match_signal_nested :: "string \<Rightarrow> string option" where
  "match_signal_nested s =
     (if startswith s ''signal'' \<and> takeWhile is_space (drop 6 s) \<noteq> []
      then (let r = dropWhile is_space (drop 6 s); run = takeWhile not_space r in
            if 2 \<le> length run \<and> last run = CHR '':'' \<and> dropWhile is_space (dropWhile not_space r) = []
            then Some (butlast run) else None)
      else None)"

text \<open>
  \<open>re.match(r"signal\s+(\S+):\s*(.+)$", s)\<close>. The subject is a stripped line of
  \<open>readlines()\<close>: it has no newline and ends with a non-blank character, so \<open>\s*(.+)$\<close>
  matches whatever is left after the blanks, provided something is left. \<open>(\S+)\<close> is
  greedy: the name ends at the last colon of the non-blank run, at position 1 or later,
  that leaves something after it.
\<close>

definition inline_rest :: "string \<Rightarrow> nat \<Rightarrow> string" where
  "inline_rest r k = dropWhile is_space (drop (Suc k) r)"

definition match_signal_inline :: "string \<Rightarrow> (string \<times> string) option" where
  "match_signal_inline s =
     (if startswith s ''signal'' \<and> takeWhile is_space (drop 6 s) \<noteq> []
      then (let r = dropWhile is_space (drop 6 s); run = takeWhile not_space r in
            case filter (\<lambda>k. r ! k = CHR '':'' \<and> inline_rest r k \<noteq> []
                              \<and> CHR 0x0A \<notin> set (inline_rest r k))
                        (rev [1..<length run]) of
              [] \<Rightarrow> None
            | k # _ \<Rightarrow> Some (take k r, inline_rest r k))
      else None)"

subsection \<open>The specification\<close>

record signal =
  name :: string
  weights :: "(nat \<times> real) list"
  is_hall :: bool

record spec =
  components :: "string list"
  component_index :: "(string \<times> nat) list"
  signals :: "signal list"
  target :: "(nat \<times> real) list"
  instruments :: "string list"
  hall_gain_db :: real

type_synonym target_weights = "(string \<times> (string \<times> real) list) list"

text \<open>\<open>len(line) - len(line.lstrip())\<close>\<close>

definition indent_of :: "string \<Rightarrow> nat" where
  "indent_of line = length line - length (lstrip line)"

text \<open>
  The test \<open>match and current_instrument and indent > base_indent\<close> on the pattern
  \<open>(direct|early):...\<close>: \<open>current_instrument\<close> is true when it is neither \<open>None\<close>
  nor the empty string. The result is the current instrument and the two groups.
\<close>

definition component_line ::
  "string option \<Rightarrow> bool \<Rightarrow> string \<Rightarrow> (string \<times> string \<times> string) option" where
  "component_line cur deeper stripped =
     (case match_component stripped of
        None \<Rightarrow> None
      | Some (ty, n) \<Rightarrow>
          (case cur of
             None \<Rightarrow> None
           | Some c \<Rightarrow> if c \<noteq> [] \<and> deeper then Some (c, ty, n) else None))"

subsection \<open>\<open>parse_nested_target\<close>\<close>

text \<open>
  The loop of \<open>parse_nested_target\<close>, with its variables \<open>current_instrument\<close>,
  \<open>base_indent\<close>, \<open>instruments\<close> and \<open>target_weights\<close> as arguments. It returns the
  instruments, the target weights and the lines from index \<open>i\<close> on.
\<close>

fun target_loop ::
  "string list \<Rightarrow> string option \<Rightarrow> nat option \<Rightarrow> string list \<Rightarrow> target_weights
   \<Rightarrow> failure + (string list \<times> target_weights \<times> string list)" where
  "target_loop [] cur base instrs tw = Inr (instrs, tw, [])"
| "target_loop (line # rest) cur base instrs tw =
     (let stripped = strip line in
      if stripped = [] \<or> startswith stripped ''#'' then target_loop rest cur base instrs tw
      else
        (let indent = indent_of line;
             base_indent = (case base of None \<Rightarrow> indent | Some b \<Rightarrow> b) in
         if indent < base_indent \<and> stripped \<noteq> [] then Inr (instrs, tw, line # rest)
         else
           (case (if indent = base_indent then match_instrument stripped else None) of
              Some (w, n) \<Rightarrow>
                (case float_unsigned n of
                   Inl e \<Rightarrow> Inl e
                 | Inr v \<Rightarrow>
                     target_loop rest (Some w) (Some base_indent) (instrs @ [w])
                       (AList.update w [(''weight'', v)] tw))
            | None \<Rightarrow>
                (case component_line cur (base_indent < indent) stripped of
                   Some (c, ty, n) \<Rightarrow>
                     (case float_unsigned n of
                        Inl e \<Rightarrow> Inl e
                      | Inr v \<Rightarrow>
                          (case map_of tw c of
                             None \<Rightarrow> Inl KeyError
                           | Some d \<Rightarrow>
                               target_loop rest cur (Some base_indent) instrs
                                 (AList.update c (AList.update ty v d) tw)))
                 | None \<Rightarrow> target_loop rest cur (Some base_indent) instrs tw))))"

definition parse_nested_target ::
  "string list \<Rightarrow> failure + (string list \<times> target_weights \<times> string list)" where
  "parse_nested_target ls = target_loop ls None None [] []"

lemma target_loop_suffix:
  "target_loop ls cur base instrs tw = Inr (instrs', tw', rest) \<Longrightarrow> length rest \<le> length ls"
proof (induction ls arbitrary: cur base instrs tw)
  case Nil
  then show ?case by simp
next
  case (Cons line ls)
  show ?case
    using Cons.prems Cons.IH
    by (fastforce simp: Let_def split: if_splits option.splits sum.splits prod.splits)
qed

subsection \<open>\<open>parse_signal_components\<close>\<close>

text \<open>The loop over the parts of \<open>component_str.split(",")\<close>, with \<open>result\<close> as argument.\<close>

fun signal_parts ::
  "string list \<Rightarrow> string \<Rightarrow> (string \<times> nat) list \<Rightarrow> (nat \<times> real) list
   \<Rightarrow> failure + (nat \<times> real) list" where
  "signal_parts [] signal_name ci result = Inr result"
| "signal_parts (p # ps) signal_name ci result =
     (case match_part (strip p) of
        None \<Rightarrow> signal_parts ps signal_name ci result
      | Some (n, x) \<Rightarrow>
          (case float_unsigned n of
             Inl e \<Rightarrow> Inl e
           | Inr weight \<Rightarrow>
               (let nm = (if x = ''direct'' then signal_name @ ''_direct'' else x) in
                case map_of ci nm of
                  None \<Rightarrow> signal_parts ps signal_name ci result
                | Some idx \<Rightarrow> signal_parts ps signal_name ci (AList.update idx weight result))))"

definition parse_signal_components ::
  "string \<Rightarrow> string \<Rightarrow> (string \<times> nat) list \<Rightarrow> failure + (nat \<times> real) list" where
  "parse_signal_components component_str signal_name ci =
     signal_parts (split_comma component_str) signal_name ci []"

subsection \<open>\<open>parse_nested_signal\<close>\<close>

text \<open>
  The loop of \<open>parse_nested_signal\<close>; \<open>cur\<close> is \<open>current_instrument\<close> and \<open>cw\<close> is
  \<open>current_instrument_weight\<close>. It returns the weights and the lines from index \<open>i\<close> on.
\<close>

fun signal_loop ::
  "string list \<Rightarrow> (string \<times> nat) list \<Rightarrow> string option \<Rightarrow> real \<Rightarrow> nat option
   \<Rightarrow> (nat \<times> real) list \<Rightarrow> failure + ((nat \<times> real) list \<times> string list)" where
  "signal_loop [] ci cur cw base ws = Inr (ws, [])"
| "signal_loop (line # rest) ci cur cw base ws =
     (let stripped = strip line in
      if stripped = [] \<or> startswith stripped ''#'' then signal_loop rest ci cur cw base ws
      else
        (let indent = indent_of line;
             base_indent = (case base of None \<Rightarrow> indent | Some b \<Rightarrow> b) in
         if indent < base_indent \<and> stripped \<noteq> [] then Inr (ws, line # rest)
         else
           (case (if indent = base_indent then match_instrument stripped else None) of
              Some (w, n) \<Rightarrow>
                (case float_unsigned n of
                   Inl e \<Rightarrow> Inl e
                 | Inr v \<Rightarrow> signal_loop rest ci (Some w) v (Some base_indent) ws)
            | None \<Rightarrow>
                (case component_line cur (base_indent < indent) stripped of
                   Some (c, ty, n) \<Rightarrow>
                     (case float_unsigned n of
                        Inl e \<Rightarrow> Inl e
                      | Inr comp_weight \<Rightarrow>
                          (case map_of ci (c @ ''_'' @ ty) of
                             None \<Rightarrow> signal_loop rest ci cur cw (Some base_indent) ws
                           | Some idx \<Rightarrow>
                               signal_loop rest ci cur cw (Some base_indent)
                                 (AList.update idx (cw * comp_weight) ws)))
                 | None \<Rightarrow> signal_loop rest ci cur cw (Some base_indent) ws))))"

definition parse_nested_signal ::
  "string list \<Rightarrow> (string \<times> nat) list \<Rightarrow> failure + ((nat \<times> real) list \<times> string list)" where
  "parse_nested_signal ls ci = signal_loop ls ci None 0 None []"

lemma signal_loop_suffix:
  "signal_loop ls ci cur cw base ws = Inr (ws', rest) \<Longrightarrow> length rest \<le> length ls"
proof (induction ls arbitrary: cur cw base ws)
  case Nil
  then show ?case by simp
next
  case (Cons line ls)
  show ?case
    using Cons.prems Cons.IH
    by (fastforce simp: Let_def split: if_splits option.splits sum.splits prod.splits)
qed

subsection \<open>\<open>parse_spec_file\<close>\<close>

text \<open>
  The first loop of \<open>parse_spec_file\<close>, with \<open>instruments\<close>, \<open>target_weights\<close> and
  \<open>hall_gain_db\<close> as arguments. After a line \<open>target:\<close> it goes on at the line where
  \<open>parse_nested_target\<close> stopped.
\<close>

function first_pass ::
  "string list \<Rightarrow> string list \<Rightarrow> target_weights \<Rightarrow> real
   \<Rightarrow> failure + (string list \<times> target_weights \<times> real)" where
  "first_pass [] instrs tw hg = Inr (instrs, tw, hg)"
| "first_pass (line # rest) instrs tw hg =
     (let stripped = strip line in
      if stripped = ''target:''
      then (case parse_nested_target rest of
              Inl e \<Rightarrow> Inl e
            | Inr (instrs', tw', rest') \<Rightarrow> first_pass rest' instrs' tw' hg)
      else (case match_hall_gain stripped of
              Some g \<Rightarrow>
                (case float_signed g of
                   Inl e \<Rightarrow> Inl e
                 | Inr v \<Rightarrow> first_pass rest instrs tw v)
            | None \<Rightarrow> first_pass rest instrs tw hg))"
  by pat_completeness auto
termination
proof (relation "measure (\<lambda>(ls, instrs, tw, hg). length ls)")
  show "wf (measure (\<lambda>(ls, instrs, tw, hg). length ls))" by simp
next
  fix line rest and instrs :: "string list" and tw :: target_weights and hg :: real
    and stripped x2 instrs' y tw' rest'
  assume "parse_nested_target rest = Inr x2" "(instrs', y) = x2" "(tw', rest') = y"
  then have "length rest' \<le> length rest"
    using target_loop_suffix [of rest None None "[]" "[]" instrs' tw' rest']
    by (simp add: parse_nested_target_def)
  then show "((rest', instrs', tw', hg), (line # rest, instrs, tw, hg))
        \<in> measure (\<lambda>(ls, instrs, tw, hg). length ls)" by simp
qed simp_all

text \<open>\<open>components\<close>: two names for each instrument, in the order of the instruments.\<close>

fun components_of :: "string list \<Rightarrow> string list" where
  "components_of [] = []"
| "components_of (instr # rest) =
     (instr @ ''_direct'') # (instr @ ''_early'') # components_of rest"

text \<open>\<open>{name: idx for idx, name in enumerate(components)}\<close>, counting from \<open>idx\<close>.\<close>

fun index_from :: "nat \<Rightarrow> string list \<Rightarrow> (string \<times> nat) list \<Rightarrow> (string \<times> nat) list" where
  "index_from idx [] d = d"
| "index_from idx (nm # nms) d = index_from (Suc idx) nms (AList.update nm idx d)"

definition component_index_of :: "string list \<Rightarrow> (string \<times> nat) list" where
  "component_index_of comps = index_from 0 comps []"

text \<open>\<open>weights.get(k, 0)\<close>\<close>

definition get0 :: "(string \<times> real) list \<Rightarrow> string \<Rightarrow> real" where
  "get0 wts k = (case map_of wts k of None \<Rightarrow> 0 | Some v \<Rightarrow> v)"

text \<open>The loop over \<open>target_weights.items()\<close> that fills \<open>target\<close>.\<close>

fun target_of ::
  "(string \<times> nat) list \<Rightarrow> target_weights \<Rightarrow> (nat \<times> real) list \<Rightarrow> failure + (nat \<times> real) list" where
  "target_of ci [] tgt = Inr tgt"
| "target_of ci ((instr, wts) # tws) tgt =
     (let instr_weight = get0 wts ''weight'';
          direct_ratio = get0 wts ''direct'';
          early_ratio = get0 wts ''early'' in
      case map_of ci (instr @ ''_direct'') of
        None \<Rightarrow> Inl KeyError
      | Some di \<Rightarrow>
          (case map_of ci (instr @ ''_early'') of
             None \<Rightarrow> Inl KeyError
           | Some ei \<Rightarrow>
               target_of ci tws
                 (AList.update ei (instr_weight * early_ratio)
                    (AList.update di (instr_weight * direct_ratio) tgt))))"

text \<open>The second loop of \<open>parse_spec_file\<close>, with \<open>signals\<close> as argument.\<close>

function signals_pass ::
  "(string \<times> nat) list \<Rightarrow> string list \<Rightarrow> signal list \<Rightarrow> failure + signal list" where
  "signals_pass ci [] sigs = Inr sigs"
| "signals_pass ci (line # rest) sigs =
     (let stripped = strip line in
      if stripped = [] \<or> startswith stripped ''#'' then signals_pass ci rest sigs
      else (case match_signal_nested stripped of
              Some nm \<Rightarrow>
                (case parse_nested_signal rest ci of
                   Inl e \<Rightarrow> Inl e
                 | Inr (ws, rest') \<Rightarrow>
                     signals_pass ci rest'
                       (sigs @ [\<lparr>name = nm, weights = ws, is_hall = False\<rparr>]))
            | None \<Rightarrow>
                (case match_signal_inline stripped of
                   Some (nm, component_str) \<Rightarrow>
                     (case parse_signal_components component_str nm ci of
                        Inl e \<Rightarrow> Inl e
                      | Inr ws \<Rightarrow>
                          signals_pass ci rest
                            (sigs @ [\<lparr>name = nm, weights = ws, is_hall = False\<rparr>]))
                 | None \<Rightarrow> signals_pass ci rest sigs)))"
  by pat_completeness auto
termination
proof (relation "measure (\<lambda>(ci, ls, sigs). length ls)")
  show "wf (measure (\<lambda>(ci, ls, sigs). length ls))" by simp
next
  fix ci :: "(string \<times> nat) list" and line rest and sigs :: "signal list"
    and stripped nm x2 ws rest'
  assume "parse_nested_signal rest ci = Inr x2" "(ws, rest') = x2"
  then have "length rest' \<le> length rest"
    using signal_loop_suffix [of rest ci None 0 None "[]" ws rest']
    by (simp add: parse_nested_signal_def)
  then show "((ci, rest', sigs @ [\<lparr>name = nm, weights = ws, is_hall = False\<rparr>]), (ci, line # rest, sigs))
        \<in> measure (\<lambda>(ci, ls, sigs). length ls)" by simp
qed simp_all

text \<open>
  \<open>parse_spec_file\<close> on the lines that \<open>readlines()\<close> returned. The source returns
  \<open>(None, message)\<close> when \<open>instruments\<close> is empty after the first loop.
\<close>

definition parse_spec_file :: "string list \<Rightarrow> failure + spec" where
  "parse_spec_file ls =
     (case first_pass ls [] [] 0 of
        Inl e \<Rightarrow> Inl e
      | Inr (instrs, tw, hg) \<Rightarrow>
          if instrs = [] then Inl (ParseError ''No target section found in spec file'')
          else
            (let comps = components_of instrs;
                 ci = component_index_of comps in
             case target_of ci tw [] of
               Inl e \<Rightarrow> Inl e
             | Inr tgt \<Rightarrow>
                 (case signals_pass ci ls [] of
                    Inl e \<Rightarrow> Inl e
                  | Inr sigs \<Rightarrow>
                      Inr \<lparr>components = comps, component_index = ci, signals = sigs,
                           target = tgt, instruments = instrs, hall_gain_db = hg\<rparr>)))"

text \<open>
  The lines that the first loop of \<open>parse_spec_file\<close> reads itself: all the lines but
  each line \<open>target:\<close> and the lines after it that \<open>parse_nested_target\<close> consumes.
\<close>

function top_level :: "string list \<Rightarrow> string list" where
  "top_level [] = []"
| "top_level (line # rest) =
     (if strip line = ''target:''
      then (case parse_nested_target rest of
              Inl e \<Rightarrow> []
            | Inr (instrs, tw, rest') \<Rightarrow> top_level rest')
      else line # top_level rest)"
  by pat_completeness auto
termination
proof (relation "measure length")
  show "wf (measure length)" by simp
next
  fix line :: string and lines :: "string list" and x2 instrs y tw rest'
  assume "parse_nested_target lines = Inr x2" "(instrs, y) = x2" "(tw, rest') = y"
  then have "length rest' \<le> length lines"
    using target_loop_suffix [of lines None None "[]" "[]" instrs tw rest']
    by (simp add: parse_nested_target_def)
  then show "(rest', line # lines) \<in> measure length" by simp
qed simp_all

text \<open>
  The values of the lines matching \<open>hall\s+gain:...\<close> among the given lines, in order.
\<close>

fun hall_values :: "string list \<Rightarrow> real list" where
  "hall_values [] = []"
| "hall_values (line # rest) =
     (case match_hall_gain (strip line) of
        None \<Rightarrow> hall_values rest
      | Some g \<Rightarrow>
          (case float_signed g of
             Inl e \<Rightarrow> hall_values rest
           | Inr v \<Rightarrow> v # hall_values rest))"

subsection \<open>\<open>add_hall_signals\<close>\<close>

text \<open>\<open>track_name.lower().replace(" ", "_")\<close>\<close>

definition normalize :: "string \<Rightarrow> string" where
  "normalize track_name = replace_space (lower track_name)"

text \<open>
  The inner loop \<open>for instr in instruments\<close> for one track name; \<open>g\<close> is
  \<open>hall_gain_linear\<close>. The \<open>break\<close> ends the loop at the first instrument that matches.
\<close>

fun hall_scan :: "string \<Rightarrow> real \<Rightarrow> spec \<Rightarrow> string list \<Rightarrow> spec" where
  "hall_scan track_name g sp [] = sp"
| "hall_scan track_name g sp (instr # rest) =
     (if normalize track_name = instr @ ''_hall''
      then (case map_of (component_index sp) (instr @ ''_early'') of
              None \<Rightarrow> sp
            | Some idx \<Rightarrow>
                sp\<lparr>signals := signals sp @
                     [\<lparr>name = track_name, weights = [(idx, g)], is_hall = True\<rparr>]\<rparr>)
      else hall_scan track_name g sp rest)"

text \<open>The outer loop \<open>for track_name in track_names\<close>.\<close>

fun hall_tracks :: "string list \<Rightarrow> real \<Rightarrow> spec \<Rightarrow> string list \<Rightarrow> spec" where
  "hall_tracks order g sp [] = sp"
| "hall_tracks order g sp (track_name # rest) =
     hall_tracks order g (hall_scan track_name g sp order) rest"

text \<open>
  \<open>instruments = set(spec["instruments"])\<close> is iterated in an order Python does not
  fix; \<open>order\<close> is that order, some enumeration of the set of instruments.
\<close>

text \<open>
  The first statement, \<open>hall_gain_linear = db_to_linear(...)\<close>, runs whatever the track
  names are; when it raises, nothing is appended.
\<close>

definition add_hall_signals :: "string list \<Rightarrow> spec \<Rightarrow> string list \<Rightarrow> failure + spec" where
  "add_hall_signals order sp track_names =
     (case db_to_linear (hall_gain_db sp) of
        Inl e \<Rightarrow> Inl e
      | Inr hall_gain_linear \<Rightarrow> Inr (hall_tracks order hall_gain_linear sp track_names))"

subsection \<open>\<open>build_matrices\<close>\<close>

text \<open>
  A matrix is the list of its rows. \<open>A[idx, j] = weight\<close> raises \<open>IndexError\<close> when
  \<open>idx\<close> is not a row.
\<close>

fun store_weights :: "real list list \<Rightarrow> nat \<Rightarrow> (nat \<times> real) list \<Rightarrow> failure + real list list" where
  "store_weights A j [] = Inr A"
| "store_weights A j ((idx, weight) # rest) =
     (if idx < length A then store_weights (A[idx := (A ! idx)[j := weight]]) j rest
      else Inl IndexError)"

fun fill_matrix :: "real list list \<Rightarrow> nat \<Rightarrow> signal list \<Rightarrow> failure + real list list" where
  "fill_matrix A j [] = Inr A"
| "fill_matrix A j (sg # rest) =
     (case store_weights A j (weights sg) of
        Inl e \<Rightarrow> Inl e
      | Inr A' \<Rightarrow> fill_matrix A' (Suc j) rest)"

fun fill_target :: "real list \<Rightarrow> (nat \<times> real) list \<Rightarrow> failure + real list" where
  "fill_target t [] = Inr t"
| "fill_target t ((idx, weight) # rest) =
     (if idx < length t then fill_target (t[idx := weight]) rest else Inl IndexError)"

definition build_matrices ::
  "spec \<Rightarrow> failure + (real list list \<times> real list \<times> real list \<times> string list)" where
  "build_matrices sp =
     (let num_components = length (components sp);
          num_signals = length (signals sp) in
      case fill_matrix (replicate num_components (replicate num_signals 0)) 0 (signals sp) of
        Inl e \<Rightarrow> Inl e
      | Inr A \<Rightarrow>
          (case fill_target (replicate num_components 0) (target sp) of
             Inl e \<Rightarrow> Inl e
           | Inr tgt \<Rightarrow>
               Inr (A, tgt, map (\<lambda>sg. if is_hall sg then 1 else 0) (signals sp),
                    map name (signals sp))))"

subsection \<open>\<open>solve_mix\<close>\<close>

text \<open>\<open>A @ x\<close>\<close>

definition matvec :: "real list list \<Rightarrow> real list \<Rightarrow> real list" where
  "matvec A x = map (\<lambda>row. sum_list (map2 (*) row x)) A"

text \<open>\<open>A.shape[1]\<close>; the matrix of a run has a row for each component, two at least.\<close>

definition ncols :: "real list list \<Rightarrow> nat" where
  "ncols A = (case A of [] \<Rightarrow> 0 | row # _ \<Rightarrow> length row)"

definition sum_squares :: "real list \<Rightarrow> real" where
  "sum_squares v = sum_list (map (\<lambda>r. r\<^sup>2) v)"

text \<open>\<open>np.linalg.norm(A @ x - target)\<close>\<close>

definition residual_norm :: "real list list \<Rightarrow> real list \<Rightarrow> real list \<Rightarrow> real" where
  "residual_norm A x tgt = sqrt (sum_squares (map2 (-) (matvec A x) tgt))"

definition HALL_PENALTY :: real where
  "HALL_PENALTY = 0.01"

definition objective :: "real list list \<Rightarrow> real list \<Rightarrow> real list \<Rightarrow> real list \<Rightarrow> real" where
  "objective A tgt hall x =
     sum_squares (map2 (-) (matvec A x) tgt) + HALL_PENALTY * sum_squares (map2 (*) x hall)"

text \<open>\<open>2 * A.T @ residual + 2 * HALL_PENALTY * x * is_hall\<close>\<close>

definition objective_grad ::
  "real list list \<Rightarrow> real list \<Rightarrow> real list \<Rightarrow> real list \<Rightarrow> real list" where
  "objective_grad A tgt hall x =
     (let residual = map2 (-) (matvec A x) tgt in
      map (\<lambda>j. 2 * sum_list (map2 (\<lambda>row r. row ! j * r) A residual)
                + 2 * HALL_PENALTY * (x ! j) * (hall ! j))
          [0..<length x])"

text \<open>
  \<open>scipy.optimize.minimize\<close> is not part of the program: it is a parameter, a function of
  the objective, the start vector, the gradient and the number of bounds \<open>(0, None)\<close>
  that returns \<open>result.x\<close> and \<open>result.success\<close>.
\<close>

type_synonym minimizer =
  "(real list \<Rightarrow> real) \<Rightarrow> real list \<Rightarrow> (real list \<Rightarrow> real list) \<Rightarrow> nat \<Rightarrow> real list \<times> bool"

definition solve_mix ::
  "minimizer \<Rightarrow> real list list \<Rightarrow> real list \<Rightarrow> real list \<Rightarrow> real list \<times> real \<times> bool" where
  "solve_mix minimize A tgt hall =
     (let num_signals = ncols A;
          x0 = replicate num_signals 0.3;
          (x, ok) = minimize (objective A tgt hall) x0 (objective_grad A tgt hall) num_signals
      in (x, residual_norm A x tgt, ok))"

subsection \<open>\<open>main\<close>: the report\<close>

text \<open>
  The result that \<open>main\<close> writes. An entry of \<open>levels\<close> is (linear, db, is_hall), an
  entry of \<open>achieved_mix\<close> is (achieved, target, diff). The texts \<open>analysis\<close> and the
  echoed lists of instruments and components are left out.
\<close>

record result =
  success :: bool
  error :: real
  error_message :: "string option"
  levels :: "(string \<times> real \<times> real \<times> bool) list"
  achieved_mix :: "(string \<times> real \<times> real \<times> real) list"

text \<open>The loop that fills \<open>levels\<close>.\<close>

fun levels_of ::
  "(string \<times> real \<times> real) list \<Rightarrow> (string \<times> real \<times> real \<times> bool) list
   \<Rightarrow> (string \<times> real \<times> real \<times> bool) list" where
  "levels_of [] d = d"
| "levels_of ((nm, x, h) # rest) d =
     levels_of rest (AList.update nm (x, linear_to_db x, h \<noteq> 0) d)"

text \<open>The loop that fills \<open>achieved_mix\<close>.\<close>

fun mix_of ::
  "(string \<times> real \<times> real) list \<Rightarrow> (string \<times> real \<times> real \<times> real) list
   \<Rightarrow> (string \<times> real \<times> real \<times> real) list" where
  "mix_of [] d = d"
| "mix_of ((nm, a, t) # rest) d = mix_of rest (AList.update nm (a, t, a - t) d)"

text \<open>
  One line of \<open>problems\<close>; \<open>fmt v\<close> is the text of \<open>f"{v:.1f}"\<close>, a parameter of the model.
\<close>

definition problem_line :: "(real \<Rightarrow> string) \<Rightarrow> string \<times> real \<times> real \<times> real \<Rightarrow> string" where
  "problem_line fmt e =
     (case e of (nm, a, t, diff) \<Rightarrow>
        nm @ '': getting '' @ fmt (a * 100) @ ''% but target is '' @ fmt (t * 100) @
        (if 0 < diff then ''% (too much baked into source signals)''
         else ''% (not enough available)''))"

definition problems_of ::
  "(real \<Rightarrow> string) \<Rightarrow> (string \<times> real \<times> real \<times> real) list \<Rightarrow> string list" where
  "problems_of fmt mix =
     map (problem_line fmt) (filter (\<lambda>(nm, a, t, diff). 0.01 < \<bar>diff\<bar>) mix)"

definition message_of ::
  "(real \<Rightarrow> string) \<Rightarrow> real \<Rightarrow> (string \<times> real \<times> real \<times> real) list \<Rightarrow> string option" where
  "message_of fmt err mix =
     (if 0.01 < err
      then (if problems_of fmt mix \<noteq> []
            then Some (''Target mix not achievable:'' @ [CHR 0x0A] @ join_lines (problems_of fmt mix))
            else None)
      else None)"

text \<open>
  The part of \<open>main\<close> after \<open>solve_mix\<close> has returned \<open>(solution, error, success)\<close>.
\<close>

definition report ::
  "(real \<Rightarrow> string) \<Rightarrow> string list \<Rightarrow> real list list \<Rightarrow> real list \<Rightarrow> real list \<Rightarrow> string list
   \<Rightarrow> real list \<times> real \<times> bool \<Rightarrow> result" where
  "report fmt comps A tgt hall signal_names solved =
     (case solved of (solution, err, ok) \<Rightarrow>
        (let mix = mix_of (zip comps (zip (matvec A solution) tgt)) [] in
         \<lparr>success = (ok \<and> err < 0.01),
          error = err,
          error_message = message_of fmt err mix,
          levels = levels_of (zip signal_names (zip solution hall)) [],
          achieved_mix = mix\<rparr>))"

text \<open>\<open>[line.strip() for line in f if line.strip()]\<close>\<close>

definition read_tracks :: "string list \<Rightarrow> string list" where
  "read_tracks ls = map strip (filter (\<lambda>l. strip l \<noteq> []) ls)"

text \<open>
  \<open>main\<close> on the lines of the two files. On \<open>Inl (ParseError err)\<close> the source writes
  \<open>{"success": False, "error": err}\<close> and exits with status 1; on any other \<open>Inl\<close> the
  exception ends the process.
\<close>

definition main ::
  "(real \<Rightarrow> string) \<Rightarrow> minimizer \<Rightarrow> string list \<Rightarrow> string list \<Rightarrow> string list \<Rightarrow> failure + result" where
  "main fmt minimize order spec_lines track_lines =
     (case parse_spec_file spec_lines of
        Inl e \<Rightarrow> Inl e
      | Inr sp0 \<Rightarrow>
          (case add_hall_signals order sp0 (read_tracks track_lines) of
             Inl e \<Rightarrow> Inl e
           | Inr sp \<Rightarrow>
               (case build_matrices sp of
                  Inl e \<Rightarrow> Inl e
                | Inr (A, tgt, hall, signal_names) \<Rightarrow>
                    Inr (report fmt (components sp) A tgt hall signal_names
                           (solve_mix minimize A tgt hall)))))"

subsection \<open>Texts used as concrete inputs\<close>

definition two_instruments :: "string list" where
  "two_instruments =
     [''target:'', '' voc: 1'', '' gtr: 2'', ''  early: 0.5'', ''signal s: 1 bogus, 0.5 gtr_early'']"

definition two_instruments_spec :: spec where
  "two_instruments_spec =
     \<lparr>components = [''voc_direct'', ''voc_early'', ''gtr_direct'', ''gtr_early''],
      component_index =
        [(''voc_direct'', 0), (''voc_early'', 1), (''gtr_direct'', 2), (''gtr_early'', 3)],
      signals = [\<lparr>name = ''s'', weights = [(3, 1 / 2)], is_hall = False\<rparr>],
      target = [(0, 0), (1, 0), (2, 0), (3, 1)],
      instruments = [''voc'', ''gtr''],
      hall_gain_db = 0\<rparr>"

definition scenario_a :: "string list" where
  "scenario_a = [''target:'', ''  voc: 1.0'', ''    direct: 1.0'', ''signal voc: 1.0 voc_direct'']"

definition scenario_c :: "string list" where
  "scenario_c = [''target:'', ''  gtr: 1.0'', ''    direct: 0.5'', ''    early: 0.5'',
                 ''hall gain: -6'']"

definition scenario_c_spec :: spec where
  "scenario_c_spec =
     \<lparr>components = [''gtr_direct'', ''gtr_early''],
      component_index = [(''gtr_direct'', 0), (''gtr_early'', 1)],
      signals = [],
      target = [(0, 1 / 2), (1, 1 / 2)],
      instruments = [''gtr''],
      hall_gain_db = - 6\<rparr>"

definition hall_in_target :: "string list" where
  "hall_in_target = [''target:'', ''  voc: 1'', ''  hall gain: -6'']"

definition hall_twice_spec :: spec where
  "hall_twice_spec =
     \<lparr>components = [''voc_direct'', ''voc_early''],
      component_index = [(''voc_direct'', 0), (''voc_early'', 1)],
      signals = [\<lparr>name = ''a'', weights = [], is_hall = False\<rparr>],
      target = [(0, 0), (1, 0)], instruments = [''voc''],
      hall_gain_db = - 6\<rparr>"

definition hall_twice2 :: "string list" where
  "hall_twice2 = [''hall gain: 3'', ''target:'', ''  voc: 1'', ''  hall gain: 9'', ''signal a:'',
                 ''  voc: 1'', ''  hall gain: -6'']"

definition small_miss :: "string list" where
  "small_miss = [''target:'', '' a: 0.009'', ''  direct: 1'', ''  early: 1'', ''signal s: 1 bogus'']"

definition scenario_b :: "string list" where
  "scenario_b = [''target:'', ''  gtr: 1.0'', ''    direct: 0.5'', ''    early: 0.5'',
                 ''signal gtr: 1.0 direct'']"

definition scenario_b_spec :: spec where
  "scenario_b_spec =
     \<lparr>components = [''gtr_direct'', ''gtr_early''],
      component_index = [(''gtr_direct'', 0), (''gtr_early'', 1)],
      signals = [\<lparr>name = ''gtr'', weights = [(0, 1)], is_hall = False\<rparr>],
      target = [(0, 1 / 2), (1, 1 / 2)],
      instruments = [''gtr''],
      hall_gain_db = 0\<rparr>"

text \<open>Stand-ins for the parameters in the examples: a formatter that prints nothing, a
  minimizer that returns its start vector, and one that returns a constant vector.\<close>

definition plain_fmt :: "real \<Rightarrow> string" where
  "plain_fmt v = []"

definition start_minimizer :: minimizer where
  "start_minimizer f x0 g n = (x0, True)"

definition const_minimizer :: "real \<Rightarrow> minimizer" where
  "const_minimizer c f x0 g n = (replicate n c, True)"

text \<open>A rendering of \<open>f"{v:.1f}"\<close> on the two values that the example needs.\<close>

definition fmt_b :: "real \<Rightarrow> string" where
  "fmt_b v = (if v = 0 then ''0.0'' else if v = 50 then ''50.0'' else ''?'')"

definition scenario_a_spec :: spec where
  "scenario_a_spec =
     \<lparr>components = [''voc_direct'', ''voc_early''],
      component_index = [(''voc_direct'', 0), (''voc_early'', 1)],
      signals = [\<lparr>name = ''voc'', weights = [(0, 1)], is_hall = False\<rparr>],
      target = [(0, 1), (1, 0)],
      instruments = [''voc''],
      hall_gain_db = 0\<rparr>"


definition hall_7000 :: "string list" where
  "hall_7000 = [''target:'', '' voc: 1'', ''hall gain: 7000'']"

definition hall_7000_spec :: spec where
  "hall_7000_spec =
     \<lparr>components = [''voc_direct'', ''voc_early''],
      component_index = [(''voc_direct'', 0), (''voc_early'', 1)],
      signals = [], target = [(0, 0), (1, 0)], instruments = [''voc''],
      hall_gain_db = 7000\<rparr>"

subsection \<open>A predicate used in the proofs\<close>


section \<open>Properties\<close>

subsection \<open>Evaluation\<close>

lemma powr_range:
  assumes "\<bar>v\<bar> \<le> 6000"
  shows "1 / 10 ^ 300 \<le> (10::real) powr (v / 20)" and "(10::real) powr (v / 20) \<le> 10 ^ 300"
proof -
  have "(10::real) powr (- 300) \<le> 10 powr (v / 20)"
    using assms by (intro powr_mono) auto
  then show "1 / 10 ^ 300 \<le> (10::real) powr (v / 20)"
    by (simp add: powr_minus_divide)
  have "(10::real) powr (v / 20) \<le> 10 powr 300"
    using assms by (intro powr_mono) auto
  then show "(10::real) powr (v / 20) \<le> 10 ^ 300"
    by simp
qed

lemma double_range:
  "(10::real) ^ 300 < overflow_bound" "underflow_bound < 1 / (10::real) ^ 300"
  by (simp_all add: overflow_bound_def underflow_bound_def)

lemma db_to_linear_in_range: "\<bar>v\<bar> \<le> 6000 \<Longrightarrow> db_to_linear v = Inr (10 powr (v / 20))"
  using powr_range [of v] double_range by (simp add: db_to_linear_def)

lemma db_to_linear_0: "db_to_linear 0 = Inr 1"
  using db_to_linear_in_range [of 0] by simp

lemma db_to_linear_overflow: "db_to_linear 7000 = Inl OverflowError"
proof -
  have "(10::real) powr (7000 / 20) = 10 ^ 350" by simp
  moreover have "overflow_bound \<le> (10::real) ^ 350"
    by (simp add: overflow_bound_def)
  ultimately show ?thesis by (simp add: db_to_linear_def)
qed

lemma db_to_linear_underflow: "db_to_linear (- 7000) = Inr 0"
proof -
  have "(10::real) powr (- 7000 / 20) = 1 / 10 ^ 350"
    by (simp add: powr_minus_divide)
  moreover have "1 / (10::real) ^ 350 \<le> underflow_bound"
    by (simp add: underflow_bound_def)
  moreover have "\<not> overflow_bound \<le> 1 / (10::real) ^ 350"
    by (simp add: overflow_bound_def)
  ultimately show ?thesis by (simp add: db_to_linear_def)
qed

lemmas char_defs = is_space_def is_digit_def is_num_def is_word_def not_space_def
lemmas string_defs = strip_def lstrip_def startswith_def indent_of_def
lemmas float_defs = float_unsigned_def float_signed_def digits_val_def digit_val_def
lemmas match_defs = num_tail_def match_instrument_def match_component_def match_hall_gain_def
  match_part_def match_signal_nested_def match_signal_inline_def inline_rest_def
  component_line_def
lemmas parse_defs = parse_nested_target_def parse_nested_signal_def
  parse_signal_components_def parse_spec_file_def component_index_of_def get0_def
lemmas eval_defs = char_defs string_defs float_defs match_defs parse_defs Let_def

lemmas solve_defs = main_def report_def solve_mix_def build_matrices_def add_hall_signals_def
  read_tracks_def matvec_def ncols_def sum_squares_def residual_norm_def message_of_def
  problems_of_def problem_line_def linear_to_db_def plain_fmt_def start_minimizer_def
  const_minimizer_def db_to_linear_0

lemma parse_two_instruments: "parse_spec_file two_instruments = Inr two_instruments_spec"
  by (simp add: two_instruments_def two_instruments_spec_def eval_defs)

lemma parse_hall_twice: "parse_spec_file hall_twice2 = Inr hall_twice_spec"
  by (simp add: hall_twice2_def hall_twice_spec_def eval_defs)

lemma parse_scenario_b: "parse_spec_file scenario_b = Inr scenario_b_spec"
  by (simp add: scenario_b_def scenario_b_spec_def eval_defs)

lemma parse_value_error: "parse_spec_file [''target:'', ''  voc: 1.2.3''] = Inl ValueError"
  by (simp add: eval_defs)

lemma sqrt2_bound: "10 < 9 * sqrt 2"
proof -
  have "(10 / 9)\<^sup>2 < (2::real)" by (simp add: power2_eq_square)
  then have "10 / 9 < sqrt 2" by (rule real_less_rsqrt)
  then show ?thesis by simp
qed

lemma small_miss_norm: "sqrt (2 * (9 / 1000)\<^sup>2) = 9 * sqrt 2 / 1000"
  by (simp add: real_sqrt_mult)

lemma sqrt_quarter: "sqrt (1 / 4) = 1 / 2"
  by (simp add: real_sqrt_divide)

lemma main_small_miss:
  "main plain_fmt start_minimizer [''a''] small_miss []
   = Inr \<lparr>success = False, error = 9 * sqrt 2 / 1000, error_message = None,
          levels = [(''s'', 3 / 10, 20 * log 10 (3 / 10), False)],
          achieved_mix = [(''a_direct'', 0, 9 / 1000, - (9 / 1000)), (''a_early'', 0, 9 / 1000, - (9 / 1000))]\<rparr>"
  using sqrt2_bound
  by (simp add: small_miss_def solve_defs eval_defs small_miss_norm)

lemma main_scenario_b:
  "main fmt_b (const_minimizer (1 / 2)) [''gtr''] scenario_b []
   = Inr \<lparr>success = False, error = 1 / 2,
          error_message = Some (''Target mix not achievable:'' @ [CHR 0x0A] @
            ''gtr_early: getting 0.0% but target is 50.0% (not enough available)''),
          levels = [(''gtr'', 1 / 2, 20 * log 10 (1 / 2), False)],
          achieved_mix = [(''gtr_direct'', 1 / 2, 1 / 2, 0), (''gtr_early'', 0, 1 / 2, - (1 / 2))]\<rparr>"
  by (simp add: scenario_b_def solve_defs eval_defs fmt_b_def sqrt_quarter power2_eq_square)

subsection \<open>The component index\<close>

lemma index_from_keys: "fst ` set (index_from i comps d) = fst ` set d \<union> set comps"
  by (induction comps arbitrary: i d) (auto simp: AList.dom_update)

lemma index_from_fresh:
  "distinct comps \<Longrightarrow> set comps \<inter> fst ` set d = {} \<Longrightarrow>
   index_from i comps d = d @ zip comps [i..<i + length comps]"
proof (induction comps arbitrary: i d)
  case Nil
  then show ?case by simp
next
  case (Cons c cs)
  have upd: "AList.update c i d = d @ [(c, i)]"
    using Cons.prems(2) by (induction d) auto
  have step: "index_from (Suc i) cs (d @ [(c, i)]) = (d @ [(c, i)]) @ zip cs [Suc i..<Suc i + length cs]"
    using Cons.prems by (intro Cons.IH) auto
  have "[i..<i + length (c # cs)] = i # [Suc i..<Suc i + length cs]"
    by (simp add: upt_conv_Cons del: upt_Suc)
  then show ?case
    using step by (simp add: upd del: upt_Suc)
qed

lemma component_index_of_distinct:
  "distinct comps \<Longrightarrow> component_index_of comps = zip comps [0..<length comps]"
  using index_from_fresh [of comps "[]" 0] by (simp add: component_index_of_def)

lemma length_components_of: "length (components_of instrs) = 2 * length instrs"
  by (induction instrs) auto

lemma set_components_of:
  "set (components_of instrs) = (\<lambda>i. i @ ''_direct'') ` set instrs \<union> (\<lambda>i. i @ ''_early'') ` set instrs"
  by (induction instrs) auto

lemma distinct_components_of: "distinct instrs \<Longrightarrow> distinct (components_of instrs)"
  by (induction instrs) (auto simp: set_components_of)

lemma components_of_nth:
  "k < length instrs \<Longrightarrow>
   components_of instrs ! (2 * k) = instrs ! k @ ''_direct'' \<and>
   components_of instrs ! Suc (2 * k) = instrs ! k @ ''_early''"
proof (induction instrs arbitrary: k)
  case Nil
  then show ?case by simp
next
  case (Cons i instrs)
  then show ?case by (cases k) auto
qed

lemma map_of_zip_upt_nth:
  "distinct xs \<Longrightarrow> j < length xs \<Longrightarrow> map_of (zip xs [0..<length xs]) (xs ! j) = Some j"
  by (metis (no_types, lifting) diff_zero length_upt map_of_zip_nth add_0 nth_upt) 


lemma parse_spec_file_fields:
  assumes "parse_spec_file ls = Inr sp"
  shows "instruments sp \<noteq> []"
    and "components sp = components_of (instruments sp)"
    and "component_index sp = component_index_of (components sp)"
    and "\<exists>tw. first_pass ls [] [] 0 = Inr (instruments sp, tw, hall_gain_db sp)
           \<and> target_of (component_index sp) tw [] = Inr (target sp)"
    and "signals_pass (component_index sp) ls [] = Inr (signals sp)"
  using assms
  by (auto simp: parse_spec_file_def Let_def split: sum.splits prod.splits if_splits)

lemma pair_index_bij:
  "bij_betw (\<lambda>(k, early). 2 * k + (if early then 1 else 0 :: nat)) ({..<n} \<times> UNIV) {..<2 * n}"
  unfolding bij_betw_def
proof
  show "inj_on (\<lambda>(k, early). 2 * k + (if early then 1 else 0 :: nat)) ({..<n} \<times> UNIV)"
    by (auto simp: inj_on_def split: if_splits) presburger+
  show "(\<lambda>(k, early). 2 * k + (if early then 1 else 0 :: nat)) ` ({..<n} \<times> UNIV) = {..<2 * n}"
  proof (intro equalityI subsetI)
    fix m assume "m \<in> {..<2 * n}"
    then have "(m div 2, odd m) \<in> {..<n} \<times> UNIV"
      and "m = (case (m div 2, odd m) of (k, early) \<Rightarrow> 2 * k + (if early then 1 else 0 :: nat))"
      by (auto simp: odd_iff_mod_2_eq_one)
    then show "m \<in> (\<lambda>(k, early). 2 * k + (if early then 1 else 0 :: nat)) ` ({..<n} \<times> UNIV)"
      by (rule rev_image_eqI)
  qed auto
qed

text \<open>
  C7. For a text that parses to a specification with $N$ distinct instruments, the
  component index sends the direct component of instrument $k$ to $2k$ and its early
  component to $2k+1$, in the order of declaration; it is the list of the components
  paired with $0, \ldots, 2N-1$, the components are distinct, and the map from
  (instrument position, direct or early) to the index is a bijection onto
  $\{0, \ldots, 2N-1\}$.
\<close>

theorem component_index_bijection:
  assumes "parse_spec_file ls = Inr sp" and "distinct (instruments sp)"
  shows "(\<forall>k<length (instruments sp).
            map_of (component_index sp) (instruments sp ! k @ ''_direct'') = Some (2 * k) \<and>
            map_of (component_index sp) (instruments sp ! k @ ''_early'') = Some (2 * k + 1))
       \<and> component_index sp = zip (components sp) [0..<2 * length (instruments sp)]
       \<and> distinct (components sp)
       \<and> bij_betw (\<lambda>(k, early). the (map_of (component_index sp)
                       (instruments sp ! k @ (if early then ''_early'' else ''_direct''))))
           ({..<length (instruments sp)} \<times> UNIV) {..<2 * length (instruments sp)}"
proof -
  let ?is = "instruments sp" and ?cs = "components sp" and ?ci = "component_index sp"
  have cs: "?cs = components_of ?is" and ci: "?ci = component_index_of ?cs"
    using parse_spec_file_fields [OF assms(1)] by simp_all
  have dist: "distinct ?cs"
    using assms(2) by (simp add: cs distinct_components_of)
  have len: "length ?cs = 2 * length ?is"
    by (simp add: cs length_components_of)
  have zip: "?ci = zip ?cs [0..<2 * length ?is]"
    using component_index_of_distinct [OF dist] by (simp add: ci len)
  have look: "map_of ?ci (?is ! k @ ''_direct'') = Some (2 * k) \<and>
              map_of ?ci (?is ! k @ ''_early'') = Some (2 * k + 1)" if "k < length ?is" for k
  proof -
    have "map_of (zip ?cs [0..<length ?cs]) (?cs ! (2 * k)) = Some (2 * k)"
      using that by (intro map_of_zip_upt_nth [OF dist]) (simp add: len)
    moreover have "map_of (zip ?cs [0..<length ?cs]) (?cs ! Suc (2 * k)) = Some (Suc (2 * k))"
      using that by (intro map_of_zip_upt_nth [OF dist]) (simp add: len)
    ultimately show ?thesis
      using components_of_nth [OF that] by (simp add: zip cs length_components_of)
  qed
  have "bij_betw (\<lambda>(k, early). the (map_of ?ci (?is ! k @ (if early then ''_early'' else ''_direct''))))
           ({..<length ?is} \<times> UNIV) {..<2 * length ?is}"
  proof (rule iffD1 [OF bij_betw_cong pair_index_bij])
    fix a assume "a \<in> {..<length ?is} \<times> (UNIV :: bool set)"
    then show "(case a of (k, early) \<Rightarrow> 2 * k + (if early then 1 else 0)) =
       (case a of (k, early) \<Rightarrow> the (map_of ?ci (?is ! k @ (if early then ''_early'' else ''_direct''))))"
      using look by (cases a) auto
  qed
  with look zip dist show ?thesis by blast
qed

theorem component_index_bijection_witness:
  "parse_spec_file two_instruments = Inr two_instruments_spec
   \<and> distinct (instruments two_instruments_spec)
   \<and> map_of (component_index two_instruments_spec) (''gtr'' @ ''_early'') = Some 3
   \<and> component_index two_instruments_spec =
       zip (components two_instruments_spec) [0..<2 * length (instruments two_instruments_spec)]"
proof -
  have d: "distinct (instruments two_instruments_spec)"
    by (simp add: two_instruments_spec_def)
  have "instruments two_instruments_spec ! 1 = ''gtr''"
    and "(1::nat) < length (instruments two_instruments_spec)"
    by (simp_all add: two_instruments_spec_def)
  then show ?thesis
    using component_index_bijection [OF parse_two_instruments d] parse_two_instruments d
    by (metis mult.right_neutral numeral_Bit1 numeral_One one_add_one add.commute)
qed

lemma parse_scenario_c: "parse_spec_file scenario_c = Inr scenario_c_spec"
  by (simp add: scenario_c_def scenario_c_spec_def eval_defs)

lemma normalize_gtr_hall: "normalize ''Gtr Hall'' = ''gtr_hall''"
  by (simp add: normalize_def lower_def lower_char_def replace_space_def)

lemma normalize_examples:
  "normalize ''Gtr_Hall'' = ''gtr_hall''" "normalize ''gtr hall'' = ''gtr_hall''"
  "normalize ''Drums'' = ''drums''"
  by (simp_all add: normalize_def lower_def lower_char_def replace_space_def)

subsection \<open>Decibels\<close>

text \<open>
  C9, as the code has it. Inside the range of the doubles the two conversions are
  inverse to each other: for every \<open>v\<close> with \<open>|v| \<le> 6000\<close> the power does not leave the
  normal doubles, \<open>db_to_linear v\<close> returns and \<open>linear_to_db\<close> takes its result back to
  \<open>v\<close>; and for every \<open>x\<close> between \<open>10^-300\<close> and \<open>10^300\<close>,
  \<open>db_to_linear (linear_to_db x)\<close> returns \<open>x\<close>.
\<close>

theorem db_linear_inverse:
  "(\<bar>v\<bar> \<le> 6000 \<longrightarrow> (\<exists>y. db_to_linear v = Inr y \<and> linear_to_db y = v))
   \<and> (1 / 10 ^ 300 \<le> x \<and> x \<le> 10 ^ 300 \<longrightarrow> db_to_linear (linear_to_db x) = Inr x)"
proof (intro conjI impI)
  assume v: "\<bar>v\<bar> \<le> 6000"
  have "0 < (10::real) powr (v / 20)" by simp
  then have "linear_to_db (10 powr (v / 20)) = v"
    by (simp add: linear_to_db_def not_le [symmetric] del: not_le)
  then show "\<exists>y. db_to_linear v = Inr y \<and> linear_to_db y = v"
    using db_to_linear_in_range [OF v] by simp
next
  assume x: "1 / 10 ^ 300 \<le> x \<and> x \<le> 10 ^ 300"
  have "(0::real) < 1 / 10 ^ 300" by simp
  then have pos: "0 < x" using x by linarith
  then have p: "10 powr (linear_to_db x / 20) = x"
    by (simp add: linear_to_db_def)
  show "db_to_linear (linear_to_db x) = Inr x"
    using x double_range by (simp add: db_to_linear_def p)
qed

theorem db_linear_inverse_witness:
  "\<bar>- 6 :: real\<bar> \<le> 6000 \<and> (\<exists>y. db_to_linear (- 6) = Inr y \<and> linear_to_db y = - 6)
   \<and> 1 / 10 ^ 300 \<le> (2::real) \<and> (2::real) \<le> 10 ^ 300
   \<and> db_to_linear (linear_to_db 2) = Inr 2"
proof -
  have a: "\<bar>- 6 :: real\<bar> \<le> 6000" by simp
  have b: "1 / 10 ^ 300 \<le> (2::real) \<and> (2::real) \<le> 10 ^ 300" by simp
  show ?thesis
    using db_linear_inverse [of "- 6" 2] a b by blast
qed

text \<open>
  The claim as stated fails: at \<open>v = -7000\<close> the power \<open>10 ** -350\<close> is \<open>0.0\<close>, and
  \<open>linear_to_db\<close> takes it to -150.
\<close>

theorem db_round_trip_counterexample:
  "db_to_linear (- 7000) = Inr 0 \<and> linear_to_db 0 = - 150"
  using db_to_linear_underflow by (simp add: linear_to_db_def)

subsection \<open>The success flag\<close>

lemma store_weights_shape:
  "store_weights A j ws = Inr A' \<Longrightarrow> map length A' = map length A"
proof (induction ws arbitrary: A)
  case Nil
  then show ?case by simp
next
  case (Cons a ws)
  obtain idx weight where a: "a = (idx, weight)" by (cases a)
  from Cons.prems have lt: "idx < length A"
    and st: "store_weights (A[idx := (A ! idx)[j := weight]]) j ws = Inr A'"
    by (auto simp: a split: if_splits)
  have "map length (A[idx := (A ! idx)[j := weight]]) = map length A"
    using lt by (simp add: map_update list_update_same_conv)
  with Cons.IH [OF st] show ?case by simp
qed

lemma fill_matrix_shape:
  "fill_matrix A j sigs = Inr A' \<Longrightarrow> map length A' = map length A"
proof (induction sigs arbitrary: A j)
  case Nil
  then show ?case by simp
next
  case (Cons sg sigs)
  from Cons.prems obtain A1 where s1: "store_weights A j (weights sg) = Inr A1"
    and f: "fill_matrix A1 (Suc j) sigs = Inr A'"
    by (auto split: sum.splits)
  show ?case
    using Cons.IH [OF f] store_weights_shape [OF s1] by simp
qed

lemma fill_target_length: "fill_target t ws = Inr t' \<Longrightarrow> length t' = length t"
proof (induction ws arbitrary: t)
  case Nil
  then show ?case by simp
next
  case (Cons a ws)
  obtain idx weight where a: "a = (idx, weight)" by (cases a)
  from Cons.prems have "fill_target (t[idx := weight]) ws = Inr t'"
    by (auto simp: a split: if_splits)
  from Cons.IH [OF this] show ?case by simp
qed

lemma build_matrices_shape:
  assumes "build_matrices sp = Inr (A, tgt, hall, names)"
  shows "map length A = replicate (length (components sp)) (length (signals sp))"
    and "length tgt = length (components sp)"
    and "length hall = length (signals sp)" and "names = map name (signals sp)"
proof -
  from assms obtain
    f: "fill_matrix (replicate (length (components sp)) (replicate (length (signals sp)) 0)) 0
          (signals sp) = Inr A" and
    t: "fill_target (replicate (length (components sp)) 0) (target sp) = Inr tgt" and
    h: "hall = map (\<lambda>sg. if is_hall sg then 1 else 0) (signals sp)" and
    n: "names = map name (signals sp)"
    by (auto simp: build_matrices_def Let_def split: sum.splits)
  show "map length A = replicate (length (components sp)) (length (signals sp))"
    using fill_matrix_shape [OF f] by (simp add: map_replicate_const)
  show "length tgt = length (components sp)"
    using fill_target_length [OF t] by simp
  show "length hall = length (signals sp)" by (simp add: h)
  show "names = map name (signals sp)" by (rule n)
qed

lemma dot_product_sum:
  "length row = length x \<Longrightarrow> sum_list (map2 (*) row x) = (\<Sum>j<length x. row ! j * x ! j)"
  by (simp add: sum_list_sum_nth atLeast0LessThan)

lemma sum_squares_sum:
  "length us = length tgt \<Longrightarrow>
   sum_squares (map2 (-) us tgt) = (\<Sum>i<length tgt. (us ! i - tgt ! i)\<^sup>2)"
  by (simp add: sum_squares_def sum_list_sum_nth atLeast0LessThan)

lemma residual_norm_sum:
  assumes "map length A = replicate (length tgt) (length x)"
  shows "residual_norm A x tgt =
         sqrt (\<Sum>i<length tgt. ((\<Sum>j<length x. A ! i ! j * x ! j) - tgt ! i)\<^sup>2)"
proof -
  have len: "length A = length tgt"
    using assms by (metis length_map length_replicate)
  have row: "length (A ! i) = length x" if "i < length tgt" for i
    using assms that len by (metis nth_map nth_replicate)
  have "matvec A x ! i = (\<Sum>j<length x. A ! i ! j * x ! j)" if "i < length tgt" for i
    using that len row [OF that] by (simp add: matvec_def dot_product_sum)
  then have "(\<Sum>i<length tgt. (matvec A x ! i - tgt ! i)\<^sup>2)
      = (\<Sum>i<length tgt. ((\<Sum>j<length x. A ! i ! j * x ! j) - tgt ! i)\<^sup>2)"
    by (intro sum.cong) auto
  moreover have "sum_squares (map2 (-) (matvec A x) tgt)
      = (\<Sum>i<length tgt. (matvec A x ! i - tgt ! i)\<^sup>2)"
    by (intro sum_squares_sum) (simp add: matvec_def len)
  ultimately show ?thesis by (simp add: residual_norm_def)
qed

lemma hall_scan_components: "components (hall_scan nm g sp order) = components sp"
  by (induction order) (auto split: option.splits)

lemma hall_tracks_components: "components (hall_tracks order g sp names) = components sp"
  by (induction names arbitrary: sp) (simp_all add: hall_scan_components)

lemma add_hall_signals_components:
  "add_hall_signals order sp names = Inr sp' \<Longrightarrow> components sp' = components sp"
  by (auto simp: add_hall_signals_def hall_tracks_components split: sum.splits)

lemma main_run:
  assumes "main fmt minimize order spec_lines track_lines = Inr res"
  obtains sp0 sp A tgt hall names x ok where
    "parse_spec_file spec_lines = Inr sp0"
    "add_hall_signals order sp0 (read_tracks track_lines) = Inr sp"
    "build_matrices sp = Inr (A, tgt, hall, names)"
    "minimize (objective A tgt hall) (replicate (ncols A) 0.3) (objective_grad A tgt hall)
       (ncols A) = (x, ok)"
    "res = report fmt (components sp0) A tgt hall names (x, residual_norm A x tgt, ok)"
    "ncols A = length names" "length A = length tgt"
    "map length A = replicate (length tgt) (length names)"
proof -
  from assms obtain sp0 sp A tgt hall names where
    p: "parse_spec_file spec_lines = Inr sp0" and
    h: "add_hall_signals order sp0 (read_tracks track_lines) = Inr sp" and
    b: "build_matrices sp = Inr (A, tgt, hall, names)" and
    r: "res = report fmt (components sp) A tgt hall names (solve_mix minimize A tgt hall)"
    by (auto simp: main_def split: sum.splits prod.splits)
  obtain x ok where
    m: "minimize (objective A tgt hall) (replicate (ncols A) 0.3) (objective_grad A tgt hall)
          (ncols A) = (x, ok)"
    by (cases "minimize (objective A tgt hall) (replicate (ncols A) 0.3) (objective_grad A tgt hall) (ncols A)")
  have comps: "components sp = components sp0"
    by (rule add_hall_signals_components [OF h])
  have "components sp0 \<noteq> []"
    using parse_spec_file_fields(1,2) [OF p] by (cases "instruments sp0") auto
  then have ne: "components sp \<noteq> []" by (simp add: comps)
  have shape: "map length A = replicate (length tgt) (length names)"
    using build_matrices_shape [OF b] by simp
  then have len: "length A = length tgt"
    by (metis length_map length_replicate)
  have "length tgt \<noteq> 0"
    using build_matrices_shape(2) [OF b] ne by simp
  then obtain row rows where A: "A = row # rows"
    using len by (cases A) auto
  have "length row = length names"
    using shape \<open>length tgt \<noteq> 0\<close> unfolding A by (cases "length tgt") auto
  then have nc: "ncols A = length names"
    by (simp add: ncols_def A)
  have r': "res = report fmt (components sp0) A tgt hall names (x, residual_norm A x tgt, ok)"
    by (simp add: r comps solve_mix_def m Let_def)
  show ?thesis
    by (rule that [OF p h b m r' nc len shape])
qed

text \<open>
  C3. In every run of \<open>main\<close> that writes a full result, the matrix has a row for each
  entry of the target and a column for each signal; and when the minimizer returns a flag
  \<open>ok\<close> and a vector \<open>x\<close> with an entry for each signal, the field \<open>error\<close> is the norm
  $\sqrt{\sum_i (\sum_j A_{ij} x_j - T_i)^2}$ and the field \<open>success\<close> is true exactly when
  \<open>ok\<close> is true and that norm is below 0.01.
\<close>

theorem success_flag:
  assumes "main fmt minimize order spec_lines track_lines = Inr res"
  shows "\<exists>sp0 sp A tgt hall names x ok.
           parse_spec_file spec_lines = Inr sp0
         \<and> add_hall_signals order sp0 (read_tracks track_lines) = Inr sp
         \<and> build_matrices sp = Inr (A, tgt, hall, names)
         \<and> minimize (objective A tgt hall) (replicate (ncols A) 0.3) (objective_grad A tgt hall)
              (ncols A) = (x, ok)
         \<and> ncols A = length names \<and> length A = length tgt
         \<and> (length x = length names \<longrightarrow>
              error res =
                sqrt (\<Sum>i<length tgt. ((\<Sum>j<length x. A ! i ! j * x ! j) - tgt ! i)\<^sup>2)
            \<and> (success res \<longleftrightarrow>
                 ok \<and> sqrt (\<Sum>i<length tgt. ((\<Sum>j<length x. A ! i ! j * x ! j) - tgt ! i)\<^sup>2)
                        < 0.01))"
proof -
  from assms obtain sp0 sp A tgt hall names x ok where
    p: "parse_spec_file spec_lines = Inr sp0" and
    h: "add_hall_signals order sp0 (read_tracks track_lines) = Inr sp" and
    b: "build_matrices sp = Inr (A, tgt, hall, names)" and
    m: "minimize (objective A tgt hall) (replicate (ncols A) 0.3) (objective_grad A tgt hall)
          (ncols A) = (x, ok)" and
    r: "res = report fmt (components sp0) A tgt hall names (x, residual_norm A x tgt, ok)" and
    nc: "ncols A = length names" and len: "length A = length tgt" and
    shape: "map length A = replicate (length tgt) (length names)"
    by (rule main_run)
  have e: "error res = residual_norm A x tgt"
    and s: "success res \<longleftrightarrow> ok \<and> residual_norm A x tgt < 0.01"
    by (simp_all add: r report_def Let_def)
  have "residual_norm A x tgt =
          sqrt (\<Sum>i<length tgt. ((\<Sum>j<length x. A ! i ! j * x ! j) - tgt ! i)\<^sup>2)"
    if "length x = length names"
    using residual_norm_sum [of A tgt x] shape that by simp
  with p h b m nc len e s show ?thesis
    by (intro exI [of _ sp0] exI [of _ sp] exI [of _ A] exI [of _ tgt] exI [of _ hall]
        exI [of _ names] exI [of _ x] exI [of _ ok]) simp
qed

lemma parse_scenario_a: "parse_spec_file scenario_a = Inr scenario_a_spec"
  by (simp add: scenario_a_def scenario_a_spec_def eval_defs)

lemma hall_scenario_a: "add_hall_signals [''voc''] scenario_a_spec (read_tracks []) = Inr scenario_a_spec"
  by (simp add: add_hall_signals_def read_tracks_def scenario_a_spec_def db_to_linear_0)

lemma build_scenario_a:
  "build_matrices scenario_a_spec = Inr ([[1], [0]], [1, 0], [0], [''voc''])"
  by (simp add: build_matrices_def scenario_a_spec_def)

lemma sqrt_near: "sqrt (1 / 40000) = (1 / 200 :: real)"
proof -
  have "sqrt ((1 / 200)\<^sup>2) = (1 / 200 :: real)" by simp
  then show ?thesis by (simp add: power2_eq_square)
qed

lemma main_near_miss:
  "main plain_fmt (const_minimizer (199 / 200)) [''voc''] scenario_a []
   = Inr \<lparr>success = True, error = 1 / 200, error_message = None,
          levels = [(''voc'', 199 / 200, 20 * log 10 (199 / 200), False)],
          achieved_mix = [(''voc_direct'', 199 / 200, 1, - (1 / 200)), (''voc_early'', 0, 0, 0)]\<rparr>"
  by (simp add: scenario_a_def solve_defs eval_defs sqrt_near power2_eq_square)

theorem success_flag_witness:
  "main plain_fmt (const_minimizer (199 / 200)) [''voc''] scenario_a []
     = Inr \<lparr>success = True, error = 1 / 200, error_message = None,
          levels = [(''voc'', 199 / 200, 20 * log 10 (199 / 200), False)],
          achieved_mix = [(''voc_direct'', 199 / 200, 1, - (1 / 200)), (''voc_early'', 0, 0, 0)]\<rparr>
   \<and> build_matrices scenario_a_spec = Inr ([[1], [0]], [1, 0], [0], [''voc''])
   \<and> length [199 / 200 :: real] = length [''voc'']
   \<and> (1 / 200 :: real) =
       sqrt (\<Sum>i<length [1, 0 :: real].
               ((\<Sum>j<length [199 / 200 :: real]. [[1], [0]] ! i ! j * [199 / 200] ! j) - [1, 0] ! i)\<^sup>2)
   \<and> sqrt (\<Sum>i<length [1, 0 :: real].
               ((\<Sum>j<length [199 / 200 :: real]. [[1], [0]] ! i ! j * [199 / 200] ! j) - [1, 0] ! i)\<^sup>2)
       < (0.01 :: real)"
proof -
  let ?R = "\<lparr>success = True, error = 1 / 200, error_message = None,
          levels = [(''voc'', 199 / 200, 20 * log 10 (199 / 200), False)],
          achieved_mix = [(''voc_direct'', 199 / 200, 1, - (1 / 200)), (''voc_early'', 0, 0, 0)]\<rparr>"
  from success_flag [OF main_near_miss] obtain sp0 sp A tgt hall names x ok where
    p: "parse_spec_file scenario_a = Inr sp0" and
    h: "add_hall_signals [''voc''] sp0 (read_tracks []) = Inr sp" and
    b: "build_matrices sp = Inr (A, tgt, hall, names)" and
    m: "const_minimizer (199 / 200) (objective A tgt hall) (replicate (ncols A) 0.3)
          (objective_grad A tgt hall) (ncols A) = (x, ok)" and
    nc: "ncols A = length names" and
    e: "length x = length names \<longrightarrow>
          error ?R = sqrt (\<Sum>i<length tgt. ((\<Sum>j<length x. A ! i ! j * x ! j) - tgt ! i)\<^sup>2)
        \<and> (success ?R \<longleftrightarrow>
             ok \<and> sqrt (\<Sum>i<length tgt. ((\<Sum>j<length x. A ! i ! j * x ! j) - tgt ! i)\<^sup>2) < 0.01)"
    by blast
  have sp0: "sp0 = scenario_a_spec" using p parse_scenario_a by simp
  have sp: "sp = scenario_a_spec" using h hall_scenario_a sp0 by simp
  have "Inr (A, tgt, hall, names) = (Inr ([[1], [0]], [1, 0], [0], [''voc''])
          :: failure + real list list \<times> real list \<times> real list \<times> string list)"
    using b build_scenario_a unfolding sp by (rule trans [OF sym])
  then have A: "A = [[1], [0]]" "tgt = [1, 0]" "names = [''voc'']"
    by blast+
  have x: "x = [199 / 200]" "ok"
    using m nc A by (simp_all add: const_minimizer_def)
  show ?thesis
    using e main_near_miss build_scenario_a unfolding A x by simp
qed

subsection \<open>Hall signals\<close>

lemma hall_scan_length:
  "length (signals (hall_scan nm g sp order)) \<le> Suc (length (signals sp))"
  by (induction order) (auto split: option.splits)

lemma hall_scan_break:
  "normalize nm = i @ ''_hall'' \<Longrightarrow>
   hall_scan nm g sp (pre @ i # post) = hall_scan nm g sp (pre @ [i])"
  by (induction pre) auto

lemma hall_tracks_length:
  "length (signals (hall_tracks order g sp names)) \<le> length (signals sp) + length names"
proof (induction names arbitrary: sp)
  case Nil
  then show ?case by simp
next
  case (Cons nm names)
  have "length (signals (hall_tracks order g (hall_scan nm g sp order) names))
        \<le> length (signals (hall_scan nm g sp order)) + length names"
    by (rule Cons.IH)
  also have "\<dots> \<le> Suc (length (signals sp)) + length names"
    using hall_scan_length [of nm g sp order] by simp
  finally show ?case by simp
qed

text \<open>
  C10. One track name appends at most one hall signal, whatever the order and the
  repetitions of the instruments scanned: the scan for a name stops at the first
  instrument \<open>i\<close> with \<open>normalize nm = i_hall\<close>, so the instruments after it are not
  tested; hence \<open>add_hall_signals\<close>, when it returns, has appended at most as many
  signals as there are names.
\<close>

theorem one_name_one_signal:
  "length (signals (hall_scan nm g sp order)) \<le> Suc (length (signals sp))
   \<and> (normalize nm = i @ ''_hall'' \<longrightarrow>
        hall_scan nm g sp (pre @ i # post) = hall_scan nm g sp (pre @ [i]))
   \<and> (\<forall>sp'. add_hall_signals order sp [nm] = Inr sp' \<longrightarrow>
          length (signals sp') \<le> Suc (length (signals sp)))
   \<and> (\<forall>sp'. add_hall_signals order sp names = Inr sp' \<longrightarrow>
          length (signals sp') \<le> length (signals sp) + length names)"
  using hall_scan_length [of nm g sp order] hall_scan_break [of nm i g sp pre post]
    hall_tracks_length [of order _ sp names] hall_tracks_length [of order _ sp "[nm]"]
  by (auto simp: add_hall_signals_def split: sum.splits)

theorem one_name_one_signal_witness:
  "normalize ''Gtr Hall'' = ''gtr'' @ ''_hall''
   \<and> hall_scan ''Gtr Hall'' 1 two_instruments_spec ([''voc''] @ ''gtr'' # [''gtr'', ''x''])
       = hall_scan ''Gtr Hall'' 1 two_instruments_spec ([''voc''] @ [''gtr''])
   \<and> length (signals (hall_scan ''Gtr Hall'' 1 two_instruments_spec [''voc'', ''gtr'', ''gtr'', ''x''])) = 2
   \<and> add_hall_signals [''voc'', ''gtr'', ''gtr''] two_instruments_spec [''Gtr Hall'']
       = Inr (hall_scan ''Gtr Hall'' 1 two_instruments_spec [''voc'', ''gtr'', ''gtr''])
   \<and> length (signals (hall_scan ''Gtr Hall'' 1 two_instruments_spec [''voc'', ''gtr'', ''gtr'']))
       \<le> Suc (length (signals two_instruments_spec))"
proof -
  have n: "normalize ''Gtr Hall'' = ''gtr'' @ ''_hall''"
    by (simp add: normalize_gtr_hall)
  have "hall_scan ''Gtr Hall'' 1 two_instruments_spec ([''voc''] @ ''gtr'' # [''gtr'', ''x''])
       = hall_scan ''Gtr Hall'' 1 two_instruments_spec ([''voc''] @ [''gtr''])"
    using one_name_one_signal [of "''Gtr Hall''" 1 two_instruments_spec _ "''gtr''" "[''voc'']" "[''gtr'', ''x'']"] n
    by blast
  moreover have "length (signals (hall_scan ''Gtr Hall'' 1 two_instruments_spec [''voc'', ''gtr'', ''gtr'', ''x''])) = 2"
    by (simp add: normalize_gtr_hall two_instruments_spec_def)
  moreover have a: "add_hall_signals [''voc'', ''gtr'', ''gtr''] two_instruments_spec [''Gtr Hall'']
       = Inr (hall_scan ''Gtr Hall'' 1 two_instruments_spec [''voc'', ''gtr'', ''gtr''])"
    by (simp add: add_hall_signals_def two_instruments_spec_def db_to_linear_0)
  moreover have "length (signals (hall_scan ''Gtr Hall'' 1 two_instruments_spec [''voc'', ''gtr'', ''gtr'']))
       \<le> Suc (length (signals two_instruments_spec))"
    using one_name_one_signal [of "''Gtr Hall''" _ two_instruments_spec _ _ _ _
        "[''voc'', ''gtr'', ''gtr'']"] a
    by blast
  ultimately show ?thesis using n by simp
qed

lemma early_index_exists:
  assumes "parse_spec_file ls = Inr sp" and "i \<in> set (instruments sp)"
  shows "\<exists>idx. map_of (component_index sp) (i @ ''_early'') = Some idx"
    and "\<exists>idx. map_of (component_index sp) (i @ ''_direct'') = Some idx"
proof -
  have "fst ` set (component_index sp) = set (components_of (instruments sp))"
    using parse_spec_file_fields(2,3) [OF assms(1)]
    by (simp add: component_index_of_def index_from_keys)
  then have "i @ ''_early'' \<in> fst ` set (component_index sp)"
    and "i @ ''_direct'' \<in> fst ` set (component_index sp)"
    using assms(2) by (auto simp: set_components_of)
  then show "\<exists>idx. map_of (component_index sp) (i @ ''_early'') = Some idx"
    and "\<exists>idx. map_of (component_index sp) (i @ ''_direct'') = Some idx"
    by (metis map_of_eq_None_iff not_Some_eq)+
qed

lemma hall_stem: "nm = i @ ''_hall'' \<Longrightarrow> take (length nm - 5) nm = i"
  by simp

lemma hall_scan_no_match:
  "\<forall>i\<in>set order. normalize nm \<noteq> i @ ''_hall'' \<Longrightarrow> hall_scan nm g sp order = sp"
  by (induction order) auto

lemma hall_scan_match:
  assumes "i \<in> set order" and "normalize nm = i @ ''_hall''"
    and "map_of (component_index sp) (i @ ''_early'') = Some idx"
  shows "hall_scan nm g sp order =
         sp\<lparr>signals := signals sp @ [\<lparr>name = nm, weights = [(idx, g)], is_hall = True\<rparr>]\<rparr>"
  using assms by (induction order) auto

lemma hall_tracks_signals:
  assumes "\<forall>i\<in>set order. \<exists>idx. map_of (component_index sp) (i @ ''_early'') = Some idx"
  shows "hall_tracks order g sp names =
         sp\<lparr>signals := signals sp @
           map (\<lambda>nm. \<lparr>name = nm,
                      weights = [(the (map_of (component_index sp)
                                    (take (length (normalize nm) - 5) (normalize nm) @ ''_early'')), g)],
                      is_hall = True\<rparr>)
             (filter (\<lambda>nm. \<exists>i\<in>set order. normalize nm = i @ ''_hall'') names)\<rparr>"
  using assms
proof (induction names arbitrary: sp)
  case Nil
  then show ?case by simp
next
  case (Cons nm names)
  show ?case
  proof (cases "\<exists>i\<in>set order. normalize nm = i @ ''_hall''")
    case False
    then have "hall_scan nm g sp order = sp"
      by (intro hall_scan_no_match) blast
    then show ?thesis
      using False Cons.IH [OF Cons.prems] by simp
  next
    case True
    then obtain i where i: "i \<in> set order" "normalize nm = i @ ''_hall''" by blast
    then obtain idx where idx: "map_of (component_index sp) (i @ ''_early'') = Some idx"
      using Cons.prems by blast
    let ?sp = "sp\<lparr>signals := signals sp @ [\<lparr>name = nm, weights = [(idx, g)], is_hall = True\<rparr>]\<rparr>"
    have scan: "hall_scan nm g sp order = ?sp"
      by (rule hall_scan_match [OF i idx])
    have stem: "take (length (normalize nm) - 5) (normalize nm) = i"
      using i(2) by simp
    have "\<forall>i\<in>set order. \<exists>idx. map_of (component_index ?sp) (i @ ''_early'') = Some idx"
      using Cons.prems by simp
    from Cons.IH [OF this] show ?thesis
      using True by (simp add: scan stem idx)
  qed
qed

text \<open>
  C4, as the code has it. For a parsed specification whose hall gain \<open>db_to_linear\<close>
  converts to a linear gain \<open>g\<close>, and for any order of iteration over its instruments,
  \<open>add_hall_signals\<close> returns the specification with its signals extended, in the order
  of the supplied names, by one signal for each name whose normalization is \<open>i_hall\<close> for
  an instrument \<open>i\<close>: its name is the supplied name, \<open>is_hall\<close> is true and its weight
  mapping has the single entry from the index of \<open>i_early\<close> to \<open>g\<close>. Other names append
  nothing, and names matching the same instrument each append a signal. For a hall gain
  between -6000 and 6000 the conversion returns and \<open>g\<close> is \<open>10 powr (hall_gain_db / 20)\<close>.
  The instrument of a matching name is the name without its last five characters, and
  its early component is in the index.
\<close>

theorem hall_signals_appended:
  assumes "parse_spec_file ls = Inr sp" and "set order = set (instruments sp)"
    and "db_to_linear (hall_gain_db sp) = Inr g"
  shows "add_hall_signals order sp names =
           Inr (sp\<lparr>signals := signals sp @
             map (\<lambda>nm. \<lparr>name = nm,
                        weights = [(the (map_of (component_index sp)
                                      (take (length (normalize nm) - 5) (normalize nm) @ ''_early'')),
                                    g)],
                        is_hall = True\<rparr>)
               (filter (\<lambda>nm. \<exists>i\<in>set (instruments sp). normalize nm = i @ ''_hall'') names)\<rparr>)
       \<and> (\<bar>hall_gain_db sp\<bar> \<le> 6000 \<longrightarrow> g = 10 powr (hall_gain_db sp / 20))
       \<and> (\<forall>nm i. i \<in> set (instruments sp) \<and> normalize nm = i @ ''_hall'' \<longrightarrow>
             take (length (normalize nm) - 5) (normalize nm) = i
           \<and> (\<exists>idx. map_of (component_index sp) (i @ ''_early'') = Some idx))"
proof -
  have ex: "\<forall>i\<in>set order. \<exists>idx. map_of (component_index sp) (i @ ''_early'') = Some idx"
    using early_index_exists(1) [OF assms(1)] assms(2) by blast
  have "\<bar>hall_gain_db sp\<bar> \<le> 6000 \<longrightarrow> g = 10 powr (hall_gain_db sp / 20)"
    using db_to_linear_in_range [of "hall_gain_db sp"] assms(3) by auto
  then show ?thesis
    using hall_tracks_signals [OF ex, of g names] early_index_exists(1) [OF assms(1)]
    by (simp add: add_hall_signals_def assms(2,3))
qed

theorem hall_signals_appended_witness:
  "parse_spec_file scenario_c = Inr scenario_c_spec
   \<and> set [''gtr''] = set (instruments scenario_c_spec)
   \<and> db_to_linear (hall_gain_db scenario_c_spec) = Inr (10 powr (- 6 / 20))
   \<and> \<bar>hall_gain_db scenario_c_spec\<bar> \<le> 6000
   \<and> add_hall_signals [''gtr''] scenario_c_spec [''Gtr_Hall'', ''Drums'', ''gtr hall''] =
       Inr (scenario_c_spec\<lparr>signals :=
         [\<lparr>name = ''Gtr_Hall'', weights = [(1, 10 powr (- 6 / 20))], is_hall = True\<rparr>,
          \<lparr>name = ''gtr hall'', weights = [(1, 10 powr (- 6 / 20))], is_hall = True\<rparr>]\<rparr>)"
proof -
  have s: "set [''gtr''] = set (instruments scenario_c_spec)"
    by (simp add: scenario_c_spec_def)
  have r: "\<bar>hall_gain_db scenario_c_spec\<bar> \<le> 6000"
    by (simp add: scenario_c_spec_def)
  have g: "db_to_linear (hall_gain_db scenario_c_spec) = Inr (10 powr (- 6 / 20))"
    using db_to_linear_in_range [OF r] by (simp add: scenario_c_spec_def)
  show ?thesis
    using hall_signals_appended [OF parse_scenario_c s g, of "[''Gtr_Hall'', ''Drums'', ''gtr hall'']"]
      parse_scenario_c s g r
    by (simp add: scenario_c_spec_def normalize_examples)
qed

text \<open>
  The claim as stated fails: this text parses, with hall gain 7000, and
  \<open>add_hall_signals\<close> raises \<open>OverflowError\<close> on the result, although the name
  \<open>Voc_Hall\<close> matches the instrument \<open>voc\<close>.
\<close>

theorem hall_overflow_counterexample:
  "parse_spec_file hall_7000 = Inr hall_7000_spec
   \<and> normalize ''Voc_Hall'' = ''voc'' @ ''_hall''
   \<and> add_hall_signals [''voc''] hall_7000_spec [''Voc_Hall''] = Inl OverflowError"
  by (simp add: hall_7000_def hall_7000_spec_def eval_defs add_hall_signals_def
      db_to_linear_overflow normalize_def lower_def lower_char_def replace_space_def)

subsection \<open>Weight mappings\<close>






lemma startswith_Nil: "startswith s [] = True"
  by (simp add: startswith_def)

lemma startswith_Cons:
  "startswith s (c # p) = (case s of [] \<Rightarrow> False | d # t \<Rightarrow> d = c \<and> startswith t p)"
  by (cases s) (auto simp: startswith_def)

lemma match_component_shape:
  "match_component s = Some (ty, n) \<Longrightarrow> s \<noteq> [] \<and> \<not> startswith s ''#''"
  by (auto simp: match_component_def startswith_Cons startswith_Nil
      split: if_splits option.splits list.splits)

lemma component_line_shape:
  "component_line cur deeper s = Some (c, ty, n) \<Longrightarrow>
   deeper \<and> s \<noteq> [] \<and> \<not> startswith s ''#'' \<and> cur = Some c"
  using match_component_shape [of s]
  by (auto simp: component_line_def split: option.splits if_splits)




subsection \<open>Failures of the parser\<close>

lemma float_unsigned_error: "float_unsigned s = Inl e \<Longrightarrow> e = ValueError"
  by (auto simp: float_unsigned_def Let_def split: list.splits if_splits)

lemma float_signed_error: "float_signed s = Inl e \<Longrightarrow> e = ValueError"
  by (auto simp: float_signed_def split: list.splits if_splits sum.splits dest: float_unsigned_error)

lemma signal_parts_error: "signal_parts ps nm ci r = Inl e \<Longrightarrow> e = ValueError"
proof (induction ps arbitrary: r)
  case Nil
  then show ?case by simp
next
  case (Cons p ps)
  show ?case
    using Cons.prems
    by (auto simp: Let_def split: option.splits sum.splits prod.splits
        dest: Cons.IH float_unsigned_error)
qed

lemma signal_loop_error: "signal_loop ls ci cur cw base ws = Inl e \<Longrightarrow> e = ValueError"
proof (induction ls arbitrary: cur cw base ws)
  case Nil
  then show ?case by simp
next
  case (Cons line ls)
  show ?case
    using Cons.prems
    by (auto simp: Let_def split: if_splits option.splits sum.splits prod.splits
        dest: Cons.IH float_unsigned_error)
qed

lemma signals_pass_error: "signals_pass ci ls sigs = Inl e \<Longrightarrow> e = ValueError"
proof (induction ci ls sigs rule: signals_pass.induct)
  case (1 ci sigs)
  then show ?case by simp
next
  case (2 ci line rest sigs)
  show ?case
    using "2.prems" "2.IH"
    by (auto simp: Let_def parse_nested_signal_def parse_signal_components_def
        split: if_splits option.splits sum.splits prod.splits
        dest: signal_loop_error signal_parts_error)
qed

lemma target_loop_ok:
  assumes "\<forall>c. cur = Some c \<longrightarrow> c \<in> fst ` set tw" and "fst ` set tw \<subseteq> set instrs"
  shows "case target_loop ls cur base instrs tw of
           Inl e \<Rightarrow> e = ValueError
         | Inr (instrs', tw', rest) \<Rightarrow> fst ` set tw' \<subseteq> set instrs'"
  using assms
proof (induction ls arbitrary: cur base instrs tw)
  case Nil
  then show ?case by simp
next
  case (Cons line ls)
  show ?case
  proof (cases "strip line = [] \<or> startswith (strip line) ''#''")
    case True
    then show ?thesis
      using Cons.IH [OF Cons.prems] by (simp add: Let_def)
  next
    case False
    note blank = False
    define bi where "bi = (case base of None \<Rightarrow> indent_of line | Some b \<Rightarrow> b)"
    show ?thesis
    proof (cases "indent_of line < bi")
      case True
      then show ?thesis
        using blank Cons.prems by (simp add: Let_def bi_def)
    next
      case False
      note inside = False
      show ?thesis
      proof (cases "if indent_of line = bi then match_instrument (strip line) else None")
        case (Some a)
        obtain w n where a: "a = (w, n)" by (cases a)
        show ?thesis
        proof (cases "float_unsigned n")
          case (Inl e)
          then show ?thesis
            using blank inside Some a float_unsigned_error [OF Inl]
            by (simp add: Let_def bi_def [symmetric])
        next
          case (Inr v)
          have "\<forall>c. Some w = Some c \<longrightarrow> c \<in> fst ` set (AList.update w [(''weight'', v)] tw)"
            and "fst ` set (AList.update w [(''weight'', v)] tw) \<subseteq> set (instrs @ [w])"
            using Cons.prems(2) by (auto simp: AList.dom_update)
          from Cons.IH [OF this] show ?thesis
            using blank inside Some a Inr by (simp add: Let_def bi_def [symmetric])
        qed
      next
        case None
        note instr = None
        show ?thesis
        proof (cases "component_line cur (bi < indent_of line) (strip line)")
          case None
          then show ?thesis
            using blank inside instr Cons.IH [OF Cons.prems]
            by (simp add: Let_def bi_def [symmetric])
        next
          case (Some a)
          obtain c ty n where a: "a = (c, ty, n)" by (cases a)
          have cur: "cur = Some c"
            using component_line_shape [OF Some [unfolded a]] by simp
          then obtain d where d: "map_of tw c = Some d"
            using Cons.prems(1) by (metis map_of_eq_None_iff not_Some_eq)
          show ?thesis
          proof (cases "float_unsigned n")
            case (Inl e)
            then show ?thesis
              using blank inside instr Some a float_unsigned_error [OF Inl]
              by (simp add: Let_def bi_def [symmetric])
          next
            case (Inr v)
            have "\<forall>c'. cur = Some c' \<longrightarrow> c' \<in> fst ` set (AList.update c (AList.update ty v d) tw)"
              and "fst ` set (AList.update c (AList.update ty v d) tw) \<subseteq> set instrs"
              using Cons.prems cur by (auto simp: AList.dom_update)
            from Cons.IH [OF this] show ?thesis
              using blank inside instr Some a Inr d by (simp add: Let_def bi_def [symmetric])
          qed
        qed
      qed
    qed
  qed
qed

lemma parse_nested_target_ok:
  "case parse_nested_target ls of
     Inl e \<Rightarrow> e = ValueError
   | Inr (instrs', tw', rest) \<Rightarrow> fst ` set tw' \<subseteq> set instrs'"
  using target_loop_ok [of None "[]" "[]" ls None] by (simp add: parse_nested_target_def)

lemma first_pass_ok:
  "fst ` set tw \<subseteq> set instrs \<Longrightarrow>
   (case first_pass ls instrs tw hg of
      Inl e \<Rightarrow> e = ValueError
    | Inr (instrs', tw', hg') \<Rightarrow> fst ` set tw' \<subseteq> set instrs')"
proof (induction ls instrs tw hg rule: first_pass.induct)
  case (1 instrs tw hg)
  then show ?case by simp
next
  case (2 line rest instrs tw hg)
  show ?case
  proof (cases "strip line = ''target:''")
    case True
    show ?thesis
    proof (cases "parse_nested_target rest")
      case (Inl e)
      then show ?thesis
        using True parse_nested_target_ok [of rest] by (simp add: Let_def)
    next
      case (Inr r)
      obtain instrs' tw' rest' where r: "r = (instrs', tw', rest')" by (cases r)
      have "fst ` set tw' \<subseteq> set instrs'"
        using parse_nested_target_ok [of rest] Inr r by simp
      from "2.IH"(1) [OF refl True Inr [unfolded r] refl refl this] show ?thesis
        using True Inr r by (simp add: Let_def)
    qed
  next
    case False
    show ?thesis
    proof (cases "match_hall_gain (strip line)")
      case None
      then show ?thesis
        using False "2.IH"(2) [OF refl False None "2.prems"] by (simp add: Let_def)
    next
      case (Some g)
      show ?thesis
      proof (cases "float_signed g")
        case (Inl e)
        then show ?thesis
          using False Some float_signed_error [OF Inl] by (simp add: Let_def)
      next
        case (Inr v)
        then show ?thesis
          using False Some "2.IH"(3) [OF refl False Some Inr "2.prems"] by (simp add: Let_def)
      qed
    qed
  qed
qed

lemma first_pass_no_target:
  "''target:'' \<notin> strip ` set ls \<Longrightarrow> first_pass ls instrs tw hg = Inr (instrs', tw', hg')
   \<Longrightarrow> instrs' = instrs \<and> tw' = tw"
proof (induction ls arbitrary: hg)
  case Nil
  then show ?case by simp
next
  case (Cons line ls)
  then show ?case
    by (auto simp: Let_def split: option.splits sum.splits)
qed

lemma target_of_ok:
  "\<forall>i\<in>fst ` set tw. (\<exists>di. map_of ci (i @ ''_direct'') = Some di)
                       \<and> (\<exists>ei. map_of ci (i @ ''_early'') = Some ei)
   \<Longrightarrow> \<exists>tgt'. target_of ci tw tgt = Inr tgt'"
proof (induction tw arbitrary: tgt)
  case Nil
  then show ?case by simp
next
  case (Cons a tw)
  obtain i wts where a: "a = (i, wts)" by (cases a)
  obtain di ei where "map_of ci (i @ ''_direct'') = Some di" "map_of ci (i @ ''_early'') = Some ei"
    using Cons.prems a by auto
  then show ?case
    using Cons.IH Cons.prems by (simp add: a Let_def)
qed

lemma index_has_components:
  assumes "i \<in> set instrs"
  shows "\<exists>di. map_of (component_index_of (components_of instrs)) (i @ ''_direct'') = Some di"
    and "\<exists>ei. map_of (component_index_of (components_of instrs)) (i @ ''_early'') = Some ei"
proof -
  have "fst ` set (component_index_of (components_of instrs)) = set (components_of instrs)"
    by (simp add: component_index_of_def index_from_keys)
  then have "i @ ''_direct'' \<in> fst ` set (component_index_of (components_of instrs))"
    and "i @ ''_early'' \<in> fst ` set (component_index_of (components_of instrs))"
    using assms by (auto simp: set_components_of)
  then show "\<exists>di. map_of (component_index_of (components_of instrs)) (i @ ''_direct'') = Some di"
    and "\<exists>ei. map_of (component_index_of (components_of instrs)) (i @ ''_early'') = Some ei"
    by (metis map_of_eq_None_iff not_Some_eq)+
qed

lemma parse_spec_file_cases:
  "(first_pass ls [] [] 0 = Inl ValueError \<and> parse_spec_file ls = Inl ValueError)
   \<or> (\<exists>tw hg. first_pass ls [] [] 0 = Inr ([], tw, hg)
        \<and> parse_spec_file ls = Inl (ParseError ''No target section found in spec file''))
   \<or> (\<exists>instrs tw hg. first_pass ls [] [] 0 = Inr (instrs, tw, hg) \<and> instrs \<noteq> []
        \<and> (parse_spec_file ls = Inl ValueError
           \<or> (\<exists>sp. parse_spec_file ls = Inr sp \<and> instruments sp = instrs)))"
proof (cases "first_pass ls [] [] 0")
  case (Inl e)
  then have "e = ValueError"
    using first_pass_ok [of "[]" "[]" ls 0] by simp
  then show ?thesis
    using Inl by (simp add: parse_spec_file_def)
next
  case (Inr r)
  obtain instrs tw hg where r: "r = (instrs, tw, hg)" by (cases r)
  have keys: "fst ` set tw \<subseteq> set instrs"
    using first_pass_ok [of "[]" "[]" ls 0] Inr r by simp
  show ?thesis
  proof (cases "instrs = []")
    case True
    then show ?thesis
      using Inr r by (simp add: parse_spec_file_def)
  next
    case False
    let ?ci = "component_index_of (components_of instrs)"
    obtain tgt where tgt: "target_of ?ci tw [] = Inr tgt"
      using target_of_ok [of tw ?ci "[]"] index_has_components keys by blast
    show ?thesis
    proof (cases "signals_pass ?ci ls []")
      case (Inl e)
      then show ?thesis
        using Inr r False tgt signals_pass_error [OF Inl]
        by (simp add: parse_spec_file_def Let_def)
    next
      case (Inr sigs)
      then show ?thesis
        using \<open>first_pass ls [] [] 0 = Inr r\<close> r False tgt
        by (simp add: parse_spec_file_def Let_def)
    qed
  qed
qed

text \<open>
  C2, as the code has it. Leaving aside the texts on which a conversion \<open>float(...)\<close>
  raises \<open>ValueError\<close>: \<open>parse_spec_file\<close> returns the ParseError exactly when its first
  loop ends with an empty list of instruments; a text with no line \<open>target:\<close> is such a
  text; and when it does not return the ParseError it returns a specification, whose
  list of instruments is not empty and whose text has a line \<open>target:\<close>. No other
  failure occurs.
\<close>

theorem parse_error_iff_no_instrument:
  assumes "parse_spec_file ls \<noteq> Inl ValueError"
  shows "(parse_spec_file ls = Inl (ParseError ''No target section found in spec file'')
          \<longleftrightarrow> (\<exists>tw hg. first_pass ls [] [] 0 = Inr ([], tw, hg)))
       \<and> (''target:'' \<notin> strip ` set ls \<longrightarrow>
            parse_spec_file ls = Inl (ParseError ''No target section found in spec file''))
       \<and> (parse_spec_file ls \<noteq> Inl (ParseError ''No target section found in spec file'') \<longrightarrow>
            (\<exists>sp. parse_spec_file ls = Inr sp \<and> instruments sp \<noteq> []
                 \<and> ''target:'' \<in> strip ` set ls))"
proof -
  have nt: "\<exists>tw hg. first_pass ls [] [] 0 = Inr ([], tw, hg)"
    if "''target:'' \<notin> strip ` set ls"
  proof -
    from parse_spec_file_cases [of ls] assms
    obtain instrs tw hg where "first_pass ls [] [] 0 = Inr (instrs, tw, hg)" by auto
    then show ?thesis
      using first_pass_no_target [OF that] by blast
  qed
  have tl: "''target:'' \<in> strip ` set ls"
    if "parse_spec_file ls = Inr sp" for sp
  proof (rule ccontr)
    assume "''target:'' \<notin> strip ` set ls"
    then obtain tw hg where "first_pass ls [] [] 0 = Inr ([], tw, hg)"
      using nt by blast
    then show False
      using that parse_spec_file_cases [of ls] by auto
  qed
  show ?thesis
    using parse_spec_file_cases [of ls] assms nt tl by auto
qed

theorem parse_error_iff_no_instrument_witness:
  "parse_spec_file two_instruments \<noteq> Inl ValueError
   \<and> parse_spec_file two_instruments \<noteq> Inl (ParseError ''No target section found in spec file'')
   \<and> (\<exists>sp. parse_spec_file two_instruments = Inr sp \<and> instruments sp \<noteq> []
          \<and> ''target:'' \<in> strip ` set two_instruments)
   \<and> parse_spec_file [''hall gain: 3''] \<noteq> Inl ValueError
   \<and> ''target:'' \<notin> strip ` set [''hall gain: 3'']
   \<and> parse_spec_file [''hall gain: 3''] = Inl (ParseError ''No target section found in spec file'')
   \<and> (\<exists>tw hg. first_pass [''hall gain: 3''] [] [] 0 = Inr ([], tw, hg))"
proof -
  have a: "parse_spec_file two_instruments \<noteq> Inl ValueError"
    and a': "parse_spec_file two_instruments \<noteq> Inl (ParseError ''No target section found in spec file'')"
    by (simp_all add: parse_two_instruments)
  have b: "parse_spec_file [''hall gain: 3''] \<noteq> Inl ValueError"
    and b': "''target:'' \<notin> strip ` set [''hall gain: 3'']"
    by (simp_all add: eval_defs)
  have c1: "\<exists>sp. parse_spec_file two_instruments = Inr sp \<and> instruments sp \<noteq> []
          \<and> ''target:'' \<in> strip ` set two_instruments"
    using parse_error_iff_no_instrument [OF a] a' by blast
  have c2: "parse_spec_file [''hall gain: 3''] = Inl (ParseError ''No target section found in spec file'')"
    using parse_error_iff_no_instrument [OF b] b' by blast
  have c3: "\<exists>tw hg. first_pass [''hall gain: 3''] [] [] 0 = Inr ([], tw, hg)"
    using parse_error_iff_no_instrument [OF b] c2 by blast
  show ?thesis
    using a a' b b' c1 c2 c3 by blast
qed

text \<open>
  The claim as stated fails: this text has a target block, whose lines are not
  recognized, and parsing returns the ParseError.
\<close>

theorem parse_target_block_counterexample:
  "strip (hd [''target:'', ''  voc 1.0'', ''    direct: 1.0'']) = ''target:''
   \<and> parse_spec_file [''target:'', ''  voc 1.0'', ''    direct: 1.0'']
       = Inl (ParseError ''No target section found in spec file'')"
  by (simp add: eval_defs)

subsection \<open>The hall gain\<close>

lemma first_pass_hall_gain:
  "first_pass ls instrs tw hg = Inr (instrs', tw', hg') \<Longrightarrow>
   hg' = last (hg # hall_values (top_level ls))"
proof (induction ls instrs tw hg rule: first_pass.induct)
  case (1 instrs tw hg)
  then show ?case by simp
next
  case (2 line rest instrs tw hg)
  show ?case
  proof (cases "strip line = ''target:''")
    case True
    then obtain i1 tw1 rest1 where n: "parse_nested_target rest = Inr (i1, tw1, rest1)"
      and f: "first_pass rest1 i1 tw1 hg = Inr (instrs', tw', hg')"
      using "2.prems" by (auto simp: Let_def split: sum.splits)
    from "2.IH"(1) [OF refl True n refl refl f] show ?thesis
      using True n by simp
  next
    case False
    note nt = False
    show ?thesis
    proof (cases "match_hall_gain (strip line)")
      case None
      then show ?thesis
        using nt "2.prems" "2.IH"(2) [OF refl nt None] by (simp add: Let_def)
    next
      case (Some g)
      then obtain v where v: "float_signed g = Inr v"
        and f: "first_pass rest instrs tw v = Inr (instrs', tw', hg')"
        using nt "2.prems" by (auto simp: Let_def split: sum.splits)
      from "2.IH"(3) [OF refl nt Some v f] show ?thesis
        using nt Some v by simp
    qed
  qed
qed

lemma space_not_word: "is_space c \<Longrightarrow> \<not> is_word c \<and> c \<noteq> CHR '':''"
  by (auto simp: is_space_def is_word_def)

lemma hall_line_shape:
  assumes "match_hall_gain s = Some g"
  shows "\<exists>c r. s = ''hall'' @ c # r \<and> is_space c"
proof -
  from assms have sw: "startswith s ''hall''" and ws: "takeWhile is_space (drop 4 s) \<noteq> []"
    by (auto simp: match_hall_gain_def split: if_splits)
  from sw obtain r0 where s: "s = ''hall'' @ r0"
    by (auto simp: startswith_Cons startswith_Nil split: list.splits)
  with ws obtain c r where "r0 = c # r" "is_space c"
    by (cases r0) (auto split: if_splits)
  with s show ?thesis by blast
qed

lemma hall_line_not_instrument:
  assumes "match_hall_gain s = Some g"
  shows "s \<noteq> [] \<and> \<not> startswith s ''#'' \<and> match_instrument s = None \<and> match_component s = None
         \<and> s \<noteq> ''target:''"
proof -
  obtain c r where s: "s = ''hall'' @ c # r" and c: "is_space c"
    using hall_line_shape [OF assms] by blast
  have w: "\<not> is_word c" "c \<noteq> CHR '':''"
    using space_not_word [OF c] by simp_all
  have "is_word CHR ''h''" "is_word CHR ''a''" "is_word CHR ''l''"
    by (simp_all add: is_word_def)
  then have "match_instrument s = None"
    using w by (simp add: s match_instrument_def)
  moreover have "match_component s = None"
    by (simp add: s match_component_def startswith_Cons)
  moreover have "\<not> startswith s ''#''" "s \<noteq> ''target:''"
    by (simp_all add: s startswith_Cons)
  ultimately show ?thesis by (simp add: s)
qed

lemma target_loop_skips_hall_gain:
  assumes "match_hall_gain (strip line) = Some g" and "b \<le> indent_of line"
  shows "target_loop (line # rest) cur (Some b) instrs tw = target_loop rest cur (Some b) instrs tw"
  using hall_line_not_instrument [OF assms(1)] assms(2)
  by (simp add: Let_def component_line_def)

text \<open>
  C5, as the code has it. The hall gain of a parsed specification is the value of the
  last line \<open>hall gain: v\<close> among the lines that the first loop reads itself (0 when
  there is none); these are all the lines outside the target blocks, the lines of signal
  blocks included. A line \<open>hall gain: v\<close> inside a target block is skipped by
  \<open>parse_nested_target\<close> and sets nothing. In a text with no line \<open>target:\<close> the first
  loop reads every line.
\<close>

theorem hall_gain_last_top_level:
  "(parse_spec_file ls = Inr sp \<longrightarrow> hall_gain_db sp = last (0 # hall_values (top_level ls)))
   \<and> (match_hall_gain (strip line) = Some g \<and> b \<le> indent_of line \<longrightarrow>
        target_loop (line # rest) cur (Some b) instrs tw = target_loop rest cur (Some b) instrs tw)
   \<and> (''target:'' \<notin> strip ` set ls \<longrightarrow> top_level ls = ls)"
proof (intro conjI impI)
  assume "parse_spec_file ls = Inr sp"
  then obtain tw where "first_pass ls [] [] 0 = Inr (instruments sp, tw, hall_gain_db sp)"
    using parse_spec_file_fields(4) by blast
  then show "hall_gain_db sp = last (0 # hall_values (top_level ls))"
    by (rule first_pass_hall_gain)
next
  assume "match_hall_gain (strip line) = Some g \<and> b \<le> indent_of line"
  then show "target_loop (line # rest) cur (Some b) instrs tw = target_loop rest cur (Some b) instrs tw"
    using target_loop_skips_hall_gain by blast
next
  assume "''target:'' \<notin> strip ` set ls"
  then show "top_level ls = ls"
    by (induction ls) auto
qed

theorem hall_gain_last_top_level_witness:
  "parse_spec_file hall_twice2 = Inr hall_twice_spec
   \<and> top_level hall_twice2 = [''hall gain: 3'', ''signal a:'', ''  voc: 1'', ''  hall gain: -6'']
   \<and> hall_values (top_level hall_twice2) = [3, - 6]
   \<and> hall_gain_db hall_twice_spec = last (0 # hall_values (top_level hall_twice2))
   \<and> match_hall_gain (strip ''  hall gain: 9'') = Some ''9'' \<and> 2 \<le> indent_of ''  hall gain: 9''
   \<and> target_loop [''  hall gain: 9'', ''signal a:''] (Some ''voc'') (Some 2) [''voc'']
         [(''voc'', [(''weight'', 1)])]
       = target_loop [''signal a:''] (Some ''voc'') (Some 2) [''voc''] [(''voc'', [(''weight'', 1)])]
   \<and> ''target:'' \<notin> strip ` set [''hall gain: 3'']
   \<and> top_level [''hall gain: 3''] = [''hall gain: 3'']"
proof -
  have t: "top_level hall_twice2 = [''hall gain: 3'', ''signal a:'', ''  voc: 1'', ''  hall gain: -6'']"
    by (simp add: hall_twice2_def eval_defs)
  have v: "hall_values [''hall gain: 3'', ''signal a:'', ''  voc: 1'', ''  hall gain: -6''] = [3, - 6]"
    by (simp add: eval_defs)
  have m: "match_hall_gain (strip ''  hall gain: 9'') = Some ''9'' \<and> 2 \<le> indent_of ''  hall gain: 9''"
    by (simp add: eval_defs)
  have n: "''target:'' \<notin> strip ` set [''hall gain: 3'']"
    by (simp add: eval_defs)
  show ?thesis
    using hall_gain_last_top_level [where ls = hall_twice2 and sp = hall_twice_spec
        and line = "''  hall gain: 9''" and g = "''9''" and b = 2 and rest = "[''signal a:'']"
        and cur = "Some ''voc''" and instrs = "[''voc'']" and tw = "[(''voc'', [(''weight'', 1)])]"]
      hall_gain_last_top_level [where ls = "[''hall gain: 3'']"]
      parse_hall_twice t v m n
    by simp
qed

text \<open>
  The claim as stated fails: the third line of this text is a line \<open>hall gain: -6\<close>
  inside the target block, and the parsed hall gain is 0.
\<close>

theorem hall_gain_in_target_counterexample:
  "match_hall_gain (strip (hall_in_target ! 2)) = Some ''-6'' \<and> float_signed ''-6'' = Inr (- 6)
   \<and> parse_spec_file hall_in_target =
       Inr \<lparr>components = [''voc_direct'', ''voc_early''],
            component_index = [(''voc_direct'', 0), (''voc_early'', 1)],
            signals = [], target = [(0, 0), (1, 0)], instruments = [''voc''],
            hall_gain_db = 0\<rparr>"
  by (simp add: hall_in_target_def eval_defs)

subsection \<open>The diagnostic message\<close>

lemma mix_of_fresh:
  "distinct (map fst es) \<Longrightarrow> fst ` set es \<inter> fst ` set d = {} \<Longrightarrow>
   mix_of es d = d @ map (\<lambda>(nm, a, t). (nm, a, t, a - t)) es"
proof (induction es arbitrary: d)
  case Nil
  then show ?case by simp
next
  case (Cons e es)
  obtain nm a t where e: "e = (nm, a, t)" by (cases e)
  have upd: "AList.update nm (a, t, a - t) d = d @ [(nm, a, t, a - t)]"
    using Cons.prems(2) unfolding e by (induction d) auto
  have "mix_of es (d @ [(nm, a, t, a - t)]) =
        (d @ [(nm, a, t, a - t)]) @ map (\<lambda>(nm, a, t). (nm, a, t, a - t)) es"
    using Cons.prems unfolding e by (intro Cons.IH) auto
  then show ?case
    by (simp add: e upd)
qed

lemma distinct_fst_zip: "distinct xs \<Longrightarrow> distinct (map fst (zip xs ys))"
  by (simp add: map_fst_zip_take distinct_take)

text \<open>
  C6, as the code has it. In every run that writes a full result, the message is
  produced exactly when the residual norm is above 0.01 and some entry of the achieved
  mix has an absolute difference between achieved and target above 0.01; it is then the
  heading followed by one line for each such entry, in order. When the instruments are
  distinct the achieved mix has one entry for each component, in the order of the
  components, with the achieved value, the target and their difference. The line of an
  entry with a positive difference ends with "too much baked into source signals", the
  line of one with a negative difference with "not enough available".
\<close>

theorem error_message_listing:
  assumes "main fmt minimize order spec_lines track_lines = Inr res"
  shows "error_message res =
           (if 0.01 < error res
               \<and> filter (\<lambda>(nm, a, t, diff). 0.01 < \<bar>diff\<bar>) (achieved_mix res) \<noteq> []
            then Some (''Target mix not achievable:'' @ [CHR 0x0A] @
                   join_lines (map (problem_line fmt)
                     (filter (\<lambda>(nm, a, t, diff). 0.01 < \<bar>diff\<bar>) (achieved_mix res))))
            else None)
       \<and> (\<exists>sp0 sp A tgt hall names x ok.
             parse_spec_file spec_lines = Inr sp0
           \<and> add_hall_signals order sp0 (read_tracks track_lines) = Inr sp
           \<and> build_matrices sp = Inr (A, tgt, hall, names)
           \<and> minimize (objective A tgt hall) (replicate (ncols A) 0.3) (objective_grad A tgt hall)
                (ncols A) = (x, ok)
           \<and> error res = residual_norm A x tgt
           \<and> (distinct (instruments sp0) \<longrightarrow>
                achieved_mix res =
                  map (\<lambda>(nm, a, t). (nm, a, t, a - t))
                    (zip (components sp0) (zip (matvec A x) tgt))))
       \<and> (\<forall>nm a t. (0 < a - t \<longrightarrow> problem_line fmt (nm, a, t, a - t) =
                        nm @ '': getting '' @ fmt (a * 100) @ ''% but target is '' @ fmt (t * 100) @
                        ''% (too much baked into source signals)'')
                   \<and> (a - t < 0 \<longrightarrow> problem_line fmt (nm, a, t, a - t) =
                        nm @ '': getting '' @ fmt (a * 100) @ ''% but target is '' @ fmt (t * 100) @
                        ''% (not enough available)''))"
proof (intro conjI)
  from assms obtain sp0 sp A tgt hall names x ok where
    p: "parse_spec_file spec_lines = Inr sp0" and
    h: "add_hall_signals order sp0 (read_tracks track_lines) = Inr sp" and
    b: "build_matrices sp = Inr (A, tgt, hall, names)" and
    m: "minimize (objective A tgt hall) (replicate (ncols A) 0.3) (objective_grad A tgt hall)
          (ncols A) = (x, ok)" and
    r: "res = report fmt (components sp0) A tgt hall names (x, residual_norm A x tgt, ok)"
    by (rule main_run)
  have mix: "achieved_mix res = mix_of (zip (components sp0) (zip (matvec A x) tgt)) []"
    and err: "error res = residual_norm A x tgt"
    and msg: "error_message res = message_of fmt (error res) (achieved_mix res)"
    by (simp_all add: r report_def Let_def)
  show "error_message res =
           (if 0.01 < error res
               \<and> filter (\<lambda>(nm, a, t, diff). 0.01 < \<bar>diff\<bar>) (achieved_mix res) \<noteq> []
            then Some (''Target mix not achievable:'' @ [CHR 0x0A] @
                   join_lines (map (problem_line fmt)
                     (filter (\<lambda>(nm, a, t, diff). 0.01 < \<bar>diff\<bar>) (achieved_mix res))))
            else None)"
    by (simp add: msg message_of_def problems_of_def)
  have "achieved_mix res =
          map (\<lambda>(nm, a, t). (nm, a, t, a - t)) (zip (components sp0) (zip (matvec A x) tgt))"
    if "distinct (instruments sp0)"
  proof -
    have "distinct (components sp0)"
      using parse_spec_file_fields(2) [OF p] that by (simp add: distinct_components_of)
    then show ?thesis
      unfolding mix
      by (rule mix_of_fresh [of "zip (components sp0) (zip (matvec A x) tgt)" "[]", simplified,
            OF distinct_fst_zip])
  qed
  with p h b m err show "\<exists>sp0 sp A tgt hall names x ok.
             parse_spec_file spec_lines = Inr sp0
           \<and> add_hall_signals order sp0 (read_tracks track_lines) = Inr sp
           \<and> build_matrices sp = Inr (A, tgt, hall, names)
           \<and> minimize (objective A tgt hall) (replicate (ncols A) 0.3) (objective_grad A tgt hall)
                (ncols A) = (x, ok)
           \<and> error res = residual_norm A x tgt
           \<and> (distinct (instruments sp0) \<longrightarrow>
                achieved_mix res =
                  map (\<lambda>(nm, a, t). (nm, a, t, a - t))
                    (zip (components sp0) (zip (matvec A x) tgt)))"
    by blast
  show "\<forall>nm a t. (0 < a - t \<longrightarrow> problem_line fmt (nm, a, t, a - t) =
                        nm @ '': getting '' @ fmt (a * 100) @ ''% but target is '' @ fmt (t * 100) @
                        ''% (too much baked into source signals)'')
                   \<and> (a - t < 0 \<longrightarrow> problem_line fmt (nm, a, t, a - t) =
                        nm @ '': getting '' @ fmt (a * 100) @ ''% but target is '' @ fmt (t * 100) @
                        ''% (not enough available)'')"
    by (simp add: problem_line_def)
qed

theorem error_message_listing_witness:
  "main fmt_b (const_minimizer (1 / 2)) [''gtr''] scenario_b []
     = Inr \<lparr>success = False, error = 1 / 2,
          error_message = Some (''Target mix not achievable:'' @ [CHR 0x0A] @
            ''gtr_early: getting 0.0% but target is 50.0% (not enough available)''),
          levels = [(''gtr'', 1 / 2, 20 * log 10 (1 / 2), False)],
          achieved_mix = [(''gtr_direct'', 1 / 2, 1 / 2, 0), (''gtr_early'', 0, 1 / 2, - (1 / 2))]\<rparr>
   \<and> parse_spec_file scenario_b = Inr scenario_b_spec
   \<and> distinct (instruments scenario_b_spec)
   \<and> (0::real) - 1 / 2 < 0
   \<and> problem_line fmt_b (''gtr_early'', 0, 1 / 2, 0 - 1 / 2) =
       ''gtr_early'' @ '': getting '' @ fmt_b (0 * 100) @ ''% but target is '' @ fmt_b (1 / 2 * 100) @
       ''% (not enough available)''"
proof -
  have d: "distinct (instruments scenario_b_spec)"
    by (simp add: scenario_b_spec_def)
  have n: "(0::real) - 1 / 2 < 0" by simp
  have "problem_line fmt_b (''gtr_early'', 0, 1 / 2, 0 - 1 / 2) =
       ''gtr_early'' @ '': getting '' @ fmt_b (0 * 100) @ ''% but target is '' @ fmt_b (1 / 2 * 100) @
       ''% (not enough available)''"
    using error_message_listing [OF main_scenario_b] n by blast
  then show ?thesis
    using main_scenario_b parse_scenario_b d n by blast
qed

text \<open>
  The claim as stated fails: in this run the residual norm is $9\sqrt{2}/1000 \ge 0.01$, no
  component differs from its target by more than 0.01, and no message is produced.
\<close>

theorem error_message_counterexample:
  "main plain_fmt start_minimizer [''a''] small_miss []
   = Inr \<lparr>success = False, error = 9 * sqrt 2 / 1000, error_message = None,
          levels = [(''s'', 3 / 10, 20 * log 10 (3 / 10), False)],
          achieved_mix = [(''a_direct'', 0, 9 / 1000, - (9 / 1000)), (''a_early'', 0, 9 / 1000, - (9 / 1000))]\<rparr>
   \<and> (0.01::real) \<le> 9 * sqrt 2 / 1000"
  using sqrt2_bound main_small_miss by simp

subsection \<open>The solver on a zero matrix\<close>

text \<open>
  When every entry of the matrix is zero the residual norm is the norm of the target,
  whatever vector the minimizer returns; without hall signals the objective is then
  constant.
\<close>

lemma matvec_zero: "matvec (replicate m (replicate n 0)) x = replicate m 0"
proof -
  have "sum_list (map2 (*) (replicate n (0::real)) x) = 0" for n
  proof (induction n arbitrary: x)
    case 0
    then show ?case by simp
  next
    case (Suc n)
    then show ?case by (cases x) simp_all
  qed
  then show ?thesis
    by (simp add: matvec_def map_replicate_const [symmetric] del: map_replicate_const) 
qed

lemma sum_squares_neg: "length tgt = m \<Longrightarrow> sum_squares (map2 (-) (replicate m 0) tgt) = sum_squares tgt"
  by (induction tgt arbitrary: m) (auto simp: sum_squares_def)

lemma zero_matrix_residual:
  "length tgt = m \<Longrightarrow> residual_norm (replicate m (replicate n 0)) x tgt = sqrt (sum_squares tgt)"
  by (simp add: residual_norm_def matvec_zero sum_squares_neg)

lemma zero_matrix_objective:
  "length tgt = m \<Longrightarrow>
   objective (replicate m (replicate n 0)) tgt (replicate k 0) x = sum_squares tgt"
proof -
  have "sum_squares (map2 (*) x (replicate k 0)) = 0"
  proof (induction x arbitrary: k)
    case Nil
    then show ?case by (simp add: sum_squares_def)
  next
    case (Cons a x)
    then show ?case by (cases k) (simp_all add: sum_squares_def)
  qed
  then show "length tgt = m \<Longrightarrow> ?thesis"
    by (simp add: objective_def matvec_zero sum_squares_neg)
qed

end
